theory Spec2Isabelle
  imports Main "HOL-Library.Word"
begin

unbundle bit_operations_syntax

section \<open>Machine model\<close>

text \<open>
  The pool of \<^verbatim>\<open>memory_pool.cpp\<close> is modelled for an LP64 target: \<^verbatim>\<open>size_t\<close>,
  \<^verbatim>\<open>uintptr_t\<close> and every pointer are 64-bit words (arithmetic wraps), the null pointer
  is the word 0, and \<^verbatim>\<open>sizeof(Chunk*)\<close> = \<^verbatim>\<open>sizeof(Block*)\<close> = 8. Memory is an array of
  bytes indexed by address; a pointer is stored in eight consecutive bytes, least
  significant byte first.
\<close>

type_synonym addr = "64 word"
type_synonym size_t = "64 word"
type_synonym memory = "addr \<Rightarrow> 8 word"

definition pointer_size :: size_t where
  "pointer_size = 8"

definition byte_of :: "addr \<Rightarrow> nat \<Rightarrow> 8 word" where
  "byte_of v i = ucast (drop_bit (8 * i) v)"

text \<open>\<^verbatim>\<open>reinterpret_cast<Chunk*>(a)->next = v\<close>: the eight bytes from \<open>a\<close> receive \<open>v\<close>.\<close>

definition store_ptr :: "memory \<Rightarrow> addr \<Rightarrow> addr \<Rightarrow> memory" where
  "store_ptr m a v = (\<lambda>x. if x - a < 8 then byte_of v (unat (x - a)) else m x)"

text \<open>\<^verbatim>\<open>reinterpret_cast<Chunk*>(a)->next\<close> read: the eight bytes from \<open>a\<close>.\<close>

definition load_ptr :: "memory \<Rightarrow> addr \<Rightarrow> addr" where
  "load_ptr m a =
     ucast (m a) OR push_bit 8 (ucast (m (a + 1))) OR push_bit 16 (ucast (m (a + 2))) OR
     push_bit 24 (ucast (m (a + 3))) OR push_bit 32 (ucast (m (a + 4))) OR
     push_bit 40 (ucast (m (a + 5))) OR push_bit 48 (ucast (m (a + 6))) OR
     push_bit 56 (ucast (m (a + 7)))"

text \<open>
  What stops a call: \<^verbatim>\<open>std::bad_alloc\<close> out of \<^verbatim>\<open>new char[]\<close>, the undefined
  \<^verbatim>\<open>%\<close> and \<^verbatim>\<open>/\<close> by zero, an exception that no handler of the pool catches, and
  \<^verbatim>\<open>std::terminate\<close>, which ends the program.
\<close>

datatype error = BadAlloc | DivisionByZero | Uncaught | Terminated

section \<open>MemoryPool\<close>

text \<open>
  The data members of the class; a member \<^verbatim>\<open>name_\<close> of the source is the field
  \<open>name'\<close> here, since a record field cannot end in an underscore.
\<close>

record MemoryPool =
  chunk_size' :: size_t
  block_size' :: size_t
  chunks_per_block' :: size_t
  current_block' :: addr
  current_chunk' :: addr
  last_chunk' :: addr
  free_chunks' :: addr

text \<open>
  The pool object together with what it acts on: the byte memory, the blocks it has
  obtained from \<^verbatim>\<open>new char[]\<close> (address and requested size, most recent first), the
  blocks it has passed to \<^verbatim>\<open>delete[]\<close> and the values it has passed to \<^verbatim>\<open>printf\<close>
  (both oldest first).
\<close>

record machine = MemoryPool +
  memory :: memory
  allocated :: "(addr \<times> size_t) list"
  released :: "addr list"
  printed :: "addr list"

definition getAssignment :: "size_t \<Rightarrow> size_t \<Rightarrow> error + size_t" where
  "getAssignment chunk_size chunk_alignment =
     (if chunk_alignment = 0 then Inl DivisionByZero
      else if chunk_size mod chunk_alignment = 0 then Inr chunk_size
      else Inr (chunk_size div chunk_alignment * (chunk_alignment + 1)))"

text \<open>The constructor, run on a machine whose memory is \<open>m0\<close>.\<close>

definition MemoryPool_ctor :: "memory \<Rightarrow> size_t \<Rightarrow> size_t \<Rightarrow> size_t \<Rightarrow> error + machine" where
  "MemoryPool_ctor m0 chunk_size chunk_alignment initial_chunks_per_block =
     (case getAssignment (max pointer_size chunk_size) chunk_alignment of
        Inl e \<Rightarrow> Inl e
      | Inr cs \<Rightarrow>
          Inr \<lparr> chunk_size' = cs,
                block_size' = pointer_size + (cs + 1) * initial_chunks_per_block,
                chunks_per_block' = initial_chunks_per_block,
                current_block' = 0,
                current_chunk' = 0,
                last_chunk' = 0,
                free_chunks' = 0,
                memory = m0,
                allocated = [],
                released = [],
                printed = [] \<rparr>)"

text \<open>
  \<^verbatim>\<open>allocateBlock\<close>. The system allocator is the parameter \<open>sys_new\<close>: its \<open>k\<close>-th
  request (counting from 0) returns \<open>sys_new k\<close>, \<open>None\<close> standing for
  \<^verbatim>\<open>std::bad_alloc\<close>. The argument \<open>blockSize\<close> is ignored, as in the source, which
  requests \<^verbatim>\<open>block_size_\<close> bytes.
\<close>

definition allocateBlock :: "(nat \<Rightarrow> addr option) \<Rightarrow> size_t \<Rightarrow> machine \<Rightarrow> error + machine" where
  "allocateBlock sys_new blockSize s =
     (case sys_new (length (allocated s)) of
        None \<Rightarrow> Inl BadAlloc
      | Some new_block \<Rightarrow>
          if chunk_size' s = 0 then Inl DivisionByZero
          else
            let first_chunk = new_block + pointer_size;
                padding = chunk_size' s - first_chunk mod chunk_size' s
            in Inr (s\<lparr> memory := store_ptr (memory s) new_block (current_block' s),
                       allocated := (new_block, block_size' s) # allocated s,
                       current_block' := new_block,
                       current_chunk' := first_chunk + padding,
                       last_chunk' := first_chunk + padding + chunks_per_block' s * chunk_size' s \<rparr>))"

definition allocate :: "(nat \<Rightarrow> addr option) \<Rightarrow> machine \<Rightarrow> error + addr \<times> machine" where
  "allocate sys_new s =
     (if free_chunks' s \<noteq> 0 then
        Inr (free_chunks' s, s\<lparr> free_chunks' := load_ptr (memory s) (free_chunks' s) \<rparr>)
      else
        case (if last_chunk' s \<le> current_chunk' s then allocateBlock sys_new (block_size' s) s
              else Inr s) of
          Inl e \<Rightarrow> Inl e
        | Inr s1 \<Rightarrow>
            Inr (current_chunk' s1, s1\<lparr> current_chunk' := current_chunk' s1 + chunk_size' s1 \<rparr>))"

definition deallocate :: "addr \<Rightarrow> machine \<Rightarrow> machine" where
  "deallocate ptr s =
     (if ptr \<noteq> 0 then
        s\<lparr> memory := store_ptr (memory s) ptr (free_chunks' s), free_chunks' := ptr \<rparr>
      else s)"

text \<open>
  The destructor's loop. It ends when the walk along the \<^verbatim>\<open>next\<close> words reaches the
  null pointer; a walk that never does is the value \<open>None\<close>.
\<close>

partial_function (option) MemoryPool_dtor :: "machine \<Rightarrow> machine option" where
  "MemoryPool_dtor s =
     (if current_block' s \<noteq> 0 then
        MemoryPool_dtor
          (s\<lparr> printed := printed s @ [current_block' s],
              released := released s @ [current_block' s],
              current_block' := load_ptr (memory s) (current_block' s) \<rparr>)
      else Some s)"

declare MemoryPool_dtor.simps [code]

section \<open>TypedMemoryPool\<close>

text \<open>
  How a constructor or destructor of \<open>T\<close> ends, and the memory it leaves: it returns, it
  throws an exception whose type derives from \<^verbatim>\<open>std::exception\<close>, it throws anything
  else, or an exception tries to leave it although it is \<^verbatim>\<open>noexcept\<close> and
  \<^verbatim>\<open>std::terminate\<close> ends the program. A destructor is \<^verbatim>\<open>noexcept\<close> unless \<open>T\<close>
  declares it \<^verbatim>\<open>noexcept(false)\<close>, so a destructor that fails ends in the fourth way
  for an ordinary \<open>T\<close>, and in the second or third way only for a \<open>T\<close> that declares
  \<^verbatim>\<open>noexcept(false)\<close>. The handlers of \<^verbatim>\<open>make\<close> and \<^verbatim>\<open>destroy\<close> are
  \<^verbatim>\<open>catch(std::exception& e)\<close>, which only the second kind reaches.
\<close>

datatype outcome = Returns memory | ThrowsStd memory | ThrowsOther memory | Terminates

text \<open>
  \<^verbatim>\<open>T{std::forward<Args>(args)...}\<close> at an address, and \<^verbatim>\<open>ptr->~T()\<close>: functions of the
  address and the memory.
\<close>

type_synonym special_member = "addr \<Rightarrow> memory \<Rightarrow> outcome"

text \<open>
  \<^verbatim>\<open>memory_pool_\<close> is the only member and owns its pool, so a typed pool is the machine
  of that pool.
\<close>

definition TypedMemoryPool_ctor :: "memory \<Rightarrow> size_t \<Rightarrow> size_t \<Rightarrow> size_t \<Rightarrow> error + machine" where
  "TypedMemoryPool_ctor m0 sizeof_T alignof_T initial_chunks_per_block =
     MemoryPool_ctor m0 sizeof_T alignof_T initial_chunks_per_block"

text \<open>
  \<^verbatim>\<open>make\<close> returns a pointer (\<open>Inr\<close>, null after a caught exception) or is left by an
  exception or ended by \<^verbatim>\<open>std::terminate\<close> (\<open>Inl\<close>); the machine is returned in all
  cases. When \<^verbatim>\<open>allocate\<close> is left by an exception the machine is reported as it was
  before the call, and when the program is terminated, as it was before the constructor or
  destructor ran.
\<close>

definition make :: "(nat \<Rightarrow> addr option) \<Rightarrow> special_member \<Rightarrow> machine \<Rightarrow> (error + addr) \<times> machine" where
  "make sys_new construct s =
     (case allocate sys_new s of
        Inl e \<Rightarrow> (Inl e, s)
      | Inr (mem, s1) \<Rightarrow>
          (case construct mem (memory s1) of
             Returns m \<Rightarrow> (Inr mem, s1\<lparr> memory := m \<rparr>)
           | ThrowsStd m \<Rightarrow> (Inr 0, deallocate mem (s1\<lparr> memory := m \<rparr>))
           | ThrowsOther m \<Rightarrow> (Inl Uncaught, s1\<lparr> memory := m \<rparr>)
           | Terminates \<Rightarrow> (Inl Terminated, s1)))"

definition destroy :: "special_member \<Rightarrow> addr \<Rightarrow> machine \<Rightarrow> (error + unit) \<times> machine" where
  "destroy destruct ptr s =
     (if ptr \<noteq> 0 then
        (case destruct ptr (memory s) of
           Returns m \<Rightarrow> (Inr (), deallocate ptr (s\<lparr> memory := m \<rparr>))
         | ThrowsStd m \<Rightarrow> (Inr (), deallocate ptr (s\<lparr> memory := m \<rparr>))
         | ThrowsOther m \<Rightarrow> (Inl Uncaught, s\<lparr> memory := m \<rparr>)
         | Terminates \<Rightarrow> (Inl Terminated, s))
      else (Inr (), s))"

section \<open>Drivers and observations\<close>

text \<open>The loops of \<^verbatim>\<open>main\<close>: \<open>n\<close> allocations in a row, collecting the addresses.\<close>

fun allocate_n :: "(nat \<Rightarrow> addr option) \<Rightarrow> nat \<Rightarrow> machine \<Rightarrow> error + addr list \<times> machine" where
  "allocate_n sys_new 0 s = Inr ([], s)"
| "allocate_n sys_new (Suc n) s =
     (case allocate sys_new s of
        Inl e \<Rightarrow> Inl e
      | Inr (p, s1) \<Rightarrow>
          (case allocate_n sys_new n s1 of
             Inl e \<Rightarrow> Inl e
           | Inr (ps, s2) \<Rightarrow> Inr (p # ps, s2)))"

text \<open>Deallocating a list of pointers, first to last.\<close>

definition deallocate_all :: "addr list \<Rightarrow> machine \<Rightarrow> machine" where
  "deallocate_all ps s = fold deallocate ps s"

text \<open>How many blocks the pool has obtained after \<open>k\<close> allocations.\<close>

definition blocks_after :: "(nat \<Rightarrow> addr option) \<Rightarrow> nat \<Rightarrow> machine \<Rightarrow> error + nat" where
  "blocks_after sys_new k s = map_sum id (\<lambda>(ps, s'). length (allocated s')) (allocate_n sys_new k s)"

text \<open>
  A chain of \<^verbatim>\<open>next\<close> words: from \<open>h\<close> the chain visits the nodes \<open>xs\<close> in order, none
  of them null, and the last node's word is \<open>t\<close>. The free list and the block list are
  such chains ending in the null pointer.
\<close>

fun chain :: "memory \<Rightarrow> addr \<Rightarrow> addr list \<Rightarrow> addr \<Rightarrow> bool" where
  "chain m h [] t = (h = t)"
| "chain m h (x # xs) t = (h = x \<and> x \<noteq> 0 \<and> chain m (load_ptr m x) xs t)"

text \<open>Two pointer-sized words at \<open>a\<close> and \<open>b\<close> share no byte.\<close>

definition apart :: "addr \<Rightarrow> addr \<Rightarrow> bool" where
  "apart a b = (8 \<le> a - b \<and> 8 \<le> b - a)"

fun separated :: "addr list \<Rightarrow> bool" where
  "separated [] = True"
| "separated (x # xs) = (list_all (apart x) xs \<and> separated xs)"

text \<open>The address of the first chunk of a block at \<open>b\<close>, as \<^verbatim>\<open>allocateBlock\<close> computes it.\<close>

definition first_chunk_of :: "size_t \<Rightarrow> addr \<Rightarrow> addr" where
  "first_chunk_of cs b = b + pointer_size + (cs - (b + pointer_size) mod cs)"

text \<open>The \<open>cs\<close> bytes from \<open>p\<close> lie within the block of \<open>sz\<close> bytes at \<open>b\<close>.\<close>

definition chunk_within :: "size_t \<Rightarrow> addr \<Rightarrow> addr \<times> size_t \<Rightarrow> bool" where
  "chunk_within cs p blk = (unat (fst blk) \<le> unat p \<and> unat p + unat cs \<le> unat (fst blk) + unat (snd blk))"

text \<open>A system allocator that serves its \<open>k\<close>-th request at \<open>4096 * (k + 1)\<close>.\<close>

definition sys_pages :: "nat \<Rightarrow> addr option" where
  "sys_pages k = Some (4096 + 4096 * of_nat k)"

text \<open>
  A system allocator that serves its \<open>k\<close>-th request at \<open>4192 + 32 * k\<close>, as one that
  rounds requests of up to 32 bytes to slots of 32 bytes does.
\<close>

definition sys_tight :: "nat \<Rightarrow> addr option" where
  "sys_tight k = Some (4192 + 32 * of_nat k)"

text \<open>Sequencing of calls that an error stops.\<close>

definition and_then :: "error + 'a \<Rightarrow> ('a \<Rightarrow> error + 'b) \<Rightarrow> error + 'b" where
  "and_then r f = (case r of Inl e \<Rightarrow> Inl e | Inr x \<Rightarrow> f x)"

text \<open>
  Machines used as concrete instances below. \<open>scenario_pool\<close> is the pool
  \<^verbatim>\<open>MemoryPool(12, 4, 10)\<close> as constructed; \<open>example_machine\<close> is that pool after one
  allocation and the deallocation of its result; \<open>example_two_blocks\<close> is that pool after
  eleven allocations.
\<close>

definition scenario_pool :: machine where
  "scenario_pool =
     \<lparr> chunk_size' = 12, block_size' = 138, chunks_per_block' = 10,
       current_block' = 0, current_chunk' = 0, last_chunk' = 0, free_chunks' = 0,
       memory = \<lambda>_. 0, allocated = [], released = [], printed = [] \<rparr>"

definition example_machine :: machine where
  "example_machine =
     \<lparr> chunk_size' = 12, block_size' = 138, chunks_per_block' = 10,
       current_block' = 4096, current_chunk' = 4128, last_chunk' = 4236, free_chunks' = 4116,
       memory = store_ptr (store_ptr (\<lambda>_. 0) 4096 0) 4116 0,
       allocated = [(4096, 138)], released = [], printed = [] \<rparr>"

definition example_two_blocks :: machine where
  "example_two_blocks =
     \<lparr> chunk_size' = 12, block_size' = 138, chunks_per_block' = 10,
       current_block' = 8192, current_chunk' = 8220, last_chunk' = 8328, free_chunks' = 0,
       memory = store_ptr (store_ptr (\<lambda>_. 0) 4096 0) 8192 4096,
       allocated = [(8192, 138), (4096, 138)], released = [], printed = [] \<rparr>"

text \<open>
  Constructors and destructors that throw, return or terminate the program without
  touching memory.
\<close>

definition throws_std :: special_member where
  "throws_std p m = ThrowsStd m"

definition throws_other :: special_member where
  "throws_other p m = ThrowsOther m"

definition returns :: special_member where
  "returns p m = Returns m"

definition terminates :: special_member where
  "terminates p m = Terminates"

section \<open>States that the pool can reach\<close>

text \<open>
  Chunk \<open>i\<close> of the block at \<open>b\<close>: the address the bump cursor has after \<open>i\<close> steps
  in that block. \<open>padding_of\<close> is the padding of \<^verbatim>\<open>allocateBlock\<close> on natural
  numbers.
\<close>

definition chunk_at :: "size_t \<Rightarrow> addr \<Rightarrow> nat \<Rightarrow> addr" where
  "chunk_at cs b i = first_chunk_of cs b + of_nat i * cs"

definition padding_of :: "nat \<Rightarrow> nat \<Rightarrow> nat" where
  "padding_of cs b = cs - (b + 8) mod cs"

text \<open>
  What is assumed of the system allocator, on the blocks it has handed out: no block is at
  the null address, every block lies in the address space with at least \<open>slack\<close> bytes
  above it, and no two blocks overlap.
\<close>

fun sane_heap :: "nat \<Rightarrow> (addr \<times> size_t) list \<Rightarrow> bool" where
  "sane_heap slack [] = True"
| "sane_heap slack (blk # rest) =
     (fst blk \<noteq> 0 \<and> unat (fst blk) + unat (snd blk) + slack < 2 ^ 64 \<and>
      list_all (\<lambda>blk'. unat (fst blk) + unat (snd blk) \<le> unat (fst blk') \<or>
                       unat (fst blk') + unat (snd blk') \<le> unat (fst blk)) rest \<and>
      sane_heap slack rest)"

text \<open>
  The chunks of all blocks obtained, and those among them that the pool has handed out at
  least once when the bump cursor is \<open>j\<close> chunks into the newest block.
\<close>

definition all_chunks :: "machine \<Rightarrow> addr set" where
  "all_chunks s =
     (\<Union>blk \<in> set (allocated s). chunk_at (chunk_size' s) (fst blk) ` {..<unat (chunks_per_block' s)})"

definition issued :: "size_t \<Rightarrow> nat \<Rightarrow> nat \<Rightarrow> addr list \<Rightarrow> addr set" where
  "issued cs n j bs =
     (case bs of [] \<Rightarrow> {}
      | b # rest \<Rightarrow> chunk_at cs b ` {..<j} \<union> (\<Union>b' \<in> set rest. chunk_at cs b' ` {..<n}))"

definition cursor_at :: "machine \<Rightarrow> nat \<Rightarrow> bool" where
  "cursor_at s j =
     (case allocated s of
        [] \<Rightarrow> current_chunk' s = 0 \<and> last_chunk' s = 0
      | blk # rest \<Rightarrow>
          j \<le> unat (chunks_per_block' s) \<and>
          current_chunk' s = chunk_at (chunk_size' s) (fst blk) j \<and>
          last_chunk' s = chunk_at (chunk_size' s) (fst blk) (unat (chunks_per_block' s)))"

text \<open>
  The parameters the pool is meant to have: chunks at least as wide as a pointer, at least
  one chunk per block, and a block size that was computed without overflow.
\<close>

definition params_ok :: "machine \<Rightarrow> bool" where
  "params_ok s =
     (8 \<le> unat (chunk_size' s) \<and> 1 \<le> unat (chunks_per_block' s) \<and>
      unat (block_size' s) = 8 + (unat (chunk_size' s) + 1) * unat (chunks_per_block' s))"

text \<open>
  The invariant: the free list is a chain \<open>fl\<close> ending in null, no chunk of it is among the
  chunks \<open>L\<close> that callers hold, and the chunks of the free list and of \<open>L\<close> together are
  exactly the chunks handed out so far.
\<close>

definition pool_inv :: "machine \<Rightarrow> addr set \<Rightarrow> bool" where
  "pool_inv s L =
     (params_ok s \<and> sane_heap (unat (chunk_size' s)) (allocated s) \<and>
      (\<forall>blk \<in> set (allocated s). snd blk = block_size' s) \<and>
      (\<exists>fl j. chain (memory s) (free_chunks' s) fl 0 \<and> set fl \<inter> L = {} \<and>
              set fl \<union> L = issued (chunk_size' s) (unat (chunks_per_block' s)) j (map fst (allocated s)) \<and>
              cursor_at s j))"

text \<open>
  The machines reached from a constructed pool by calls that keep the contract of
  \<^verbatim>\<open>deallocate\<close> (only chunks that the caller holds are passed to it), together with the
  set of chunks the callers hold. The pool must have got a chunk size of at least eight, and
  the system allocator must behave as \<open>sane_heap\<close> says.
\<close>

inductive reachable :: "(nat \<Rightarrow> addr option) \<Rightarrow> machine \<Rightarrow> addr set \<Rightarrow> bool"
  for sys_new :: "nat \<Rightarrow> addr option" where
  fresh: "MemoryPool_ctor m0 chunk_size chunk_alignment n = Inr s \<Longrightarrow>
          8 \<le> unat (chunk_size' s) \<Longrightarrow> n \<noteq> 0 \<Longrightarrow>
          8 + (unat (chunk_size' s) + 1) * unat n < 2 ^ 64 \<Longrightarrow>
          reachable sys_new s {}"
| alloc: "reachable sys_new s L \<Longrightarrow> allocate sys_new s = Inr (p, s') \<Longrightarrow>
          sane_heap (unat (chunk_size' s')) (allocated s') \<Longrightarrow>
          reachable sys_new s' (insert p L)"
| dealloc: "reachable sys_new s L \<Longrightarrow> p \<in> L \<Longrightarrow> reachable sys_new (deallocate p s) (L - {p})"
| dealloc_null: "reachable sys_new s L \<Longrightarrow> reachable sys_new (deallocate 0 s) L"

section \<open>Memory\<close>

lemma bytes_join:
  "(ucast (byte_of v 0) OR push_bit 8 (ucast (byte_of v 1)) OR push_bit 16 (ucast (byte_of v 2)) OR
     push_bit 24 (ucast (byte_of v 3)) OR push_bit 32 (ucast (byte_of v 4)) OR
     push_bit 40 (ucast (byte_of v 5)) OR push_bit 48 (ucast (byte_of v 6)) OR
     push_bit 56 (ucast (byte_of v 7)) :: addr) = v"
proof (rule bit_word_eqI)
  fix n assume n: "n < LENGTH(64)"
  then consider "n < 8" | "8 \<le> n" "n < 16" | "16 \<le> n" "n < 24" | "24 \<le> n" "n < 32"
    | "32 \<le> n" "n < 40" | "40 \<le> n" "n < 48" | "48 \<le> n" "n < 56" | "56 \<le> n" "n < 64"
    by fastforce
  then show "bit (ucast (byte_of v 0) OR push_bit 8 (ucast (byte_of v 1)) OR push_bit 16 (ucast (byte_of v 2)) OR
     push_bit 24 (ucast (byte_of v 3)) OR push_bit 32 (ucast (byte_of v 4)) OR
     push_bit 40 (ucast (byte_of v 5)) OR push_bit 48 (ucast (byte_of v 6)) OR
     push_bit 56 (ucast (byte_of v 7)) :: addr) n = bit v n"
    by cases (auto simp: byte_of_def bit_simps)
qed

lemma load_store_same: "load_ptr (store_ptr m a v) a = v"
  using bytes_join [of v] by (simp add: load_ptr_def store_ptr_def)

lemma store_ptr_frame: "8 \<le> x - a \<Longrightarrow> store_ptr m a v x = m x"
  by (simp add: store_ptr_def not_less [symmetric])

lemma apart_sym: "apart a b = apart b a"
  by (auto simp: apart_def)

lemma apart_offset:
  fixes a b i :: addr
  shows "apart a b \<Longrightarrow> i < 8 \<Longrightarrow> 8 \<le> b + i - a"
  unfolding apart_def by unat_arith

lemma load_ptr_cong:
  "(\<And>i. i < 8 \<Longrightarrow> m' (a + i) = m (a + i)) \<Longrightarrow> load_ptr m' a = load_ptr m a"
proof -
  assume h: "\<And>i. i < (8::addr) \<Longrightarrow> m' (a + i) = m (a + i)"
  have "m' a = m a" using h [of 0] by simp
  moreover have "m' (a + 1) = m (a + 1)" "m' (a + 2) = m (a + 2)" "m' (a + 3) = m (a + 3)"
    "m' (a + 4) = m (a + 4)" "m' (a + 5) = m (a + 5)" "m' (a + 6) = m (a + 6)" "m' (a + 7) = m (a + 7)"
    by (rule h, simp)+
  ultimately show ?thesis by (simp add: load_ptr_def)
qed

lemma load_store_apart: "apart a b \<Longrightarrow> load_ptr (store_ptr m a v) b = load_ptr m b"
  by (rule load_ptr_cong) (simp add: store_ptr_frame apart_offset)

section \<open>Chains\<close>

lemma chain_store_apart:
  "list_all (apart a) xs \<Longrightarrow> chain (store_ptr m a v) h xs t = chain m h xs t"
  by (induction xs arbitrary: h) (simp_all add: load_store_apart)

lemma chain_append:
  "chain m h (xs @ ys) t = (\<exists>mid. chain m h xs mid \<and> chain m mid ys t)"
  by (induction xs arbitrary: h) auto

lemma chain_unique: "chain m h xs 0 \<Longrightarrow> chain m h ys 0 \<Longrightarrow> xs = ys"
proof (induction xs arbitrary: h ys)
  case Nil
  then show ?case by (cases ys) auto
next
  case (Cons x xs)
  then show ?case by (cases ys) auto
qed

lemma chain_distinct: "chain m h xs 0 \<Longrightarrow> distinct xs"
proof (induction xs arbitrary: h)
  case Nil
  then show ?case by simp
next
  case (Cons x xs)
  have "x \<notin> set xs"
  proof
    assume "x \<in> set xs"
    then obtain ys zs where xs: "xs = ys @ x # zs"
      by (auto simp: in_set_conv_decomp)
    with Cons.prems have "chain m (load_ptr m x) (ys @ x # zs) 0"
      by simp
    then have "chain m x (x # zs) 0"
      by (auto simp: chain_append)
    moreover from Cons.prems have "chain m x (x # xs) 0"
      by simp
    ultimately have "x # xs = x # zs"
      by (rule chain_unique [rotated])
    with xs show False
      by simp
  qed
  then show ?case using Cons by auto
qed

lemma chain_cong:
  "(\<And>x. x \<in> set xs \<Longrightarrow> load_ptr m' x = load_ptr m x) \<Longrightarrow> chain m' h xs t = chain m h xs t"
  by (induction xs arbitrary: h) simp_all

section \<open>The sizing rule\<close>

text \<open>
  C1 (the effective chunk size is the smallest multiple of the alignment that is at least
  max(pointer size, chunk size)): the source's rounding formula does not compute it.
  For the request \<open>chunk_size = 12\<close>, \<open>chunk_alignment = 8\<close> the constructor stores
  \<open>12 div 8 * (8 + 1) = 9\<close>, which is neither a multiple of 8 nor at least 12; the
  smallest multiple of 8 that is at least 12 is 16.
\<close>

theorem C1_chunk_size_not_rounded_up:
  "map_sum id chunk_size' (MemoryPool_ctor m0 12 8 10) = Inr 9 \<and>
   (9 :: size_t) mod 8 = 1 \<and> (9 :: size_t) < max pointer_size 12"
  by (simp add: MemoryPool_ctor_def getAssignment_def pointer_size_def)

section \<open>Allocation from a block\<close>

lemma unat_linear:
  fixes c cs :: addr
  assumes "unat c + k * unat cs < 2 ^ 64"
  shows "unat (c + of_nat k * cs) = unat c + k * unat cs"
proof -
  have "c + of_nat k * cs = of_nat (unat c + k * unat cs)"
    by simp
  then have "unat (c + of_nat k * cs) = (unat c + k * unat cs) mod 2 ^ 64"
    by (simp only: unat_of_nat) simp
  with assms show ?thesis
    by simp
qed

lemma bump_less:
  fixes c cs :: addr
  assumes "j < n" and "cs \<noteq> 0" and "unat c + n * unat cs < 2 ^ 64"
  shows "c + of_nat j * cs < c + of_nat n * cs"
proof -
  have pos: "0 < unat cs"
    using assms(2) by (simp add: unat_gt_0)
  have "j * unat cs < n * unat cs"
    using assms(1) pos by simp
  moreover then have "unat c + j * unat cs < 2 ^ 64"
    using assms(3) by linarith
  ultimately show ?thesis
    using assms(3) by (simp add: word_less_nat_alt unat_linear)
qed

lemma allocate_bump:
  assumes "free_chunks' s = 0" and "current_chunk' s < last_chunk' s"
  shows "allocate sys_new s =
    Inr (current_chunk' s, s\<lparr> current_chunk' := current_chunk' s + chunk_size' s \<rparr>)"
  using assms by (simp add: allocate_def not_le [symmetric])

lemma allocate_new_block:
  assumes "free_chunks' s = 0" and "last_chunk' s \<le> current_chunk' s"
    and "sys_new (length (allocated s)) = Some b" and "chunk_size' s \<noteq> 0"
  shows "allocate sys_new s =
    Inr (first_chunk_of (chunk_size' s) b,
         s\<lparr> memory := store_ptr (memory s) b (current_block' s),
            allocated := (b, block_size' s) # allocated s,
            current_block' := b,
            current_chunk' := first_chunk_of (chunk_size' s) b + chunk_size' s,
            last_chunk' := first_chunk_of (chunk_size' s) b + chunks_per_block' s * chunk_size' s \<rparr>)"
  using assms by (simp add: allocate_def allocateBlock_def first_chunk_of_def Let_def)

lemma allocate_n_bump:
  assumes "free_chunks' s = 0" and "chunk_size' s = cs" and "cs \<noteq> 0"
    and "current_chunk' s = c + of_nat j * cs" and "last_chunk' s = c + of_nat n * cs"
    and "j + k \<le> n" and "unat c + n * unat cs < 2 ^ 64"
  shows "allocate_n sys_new k s =
    Inr (map (\<lambda>i. c + of_nat i * cs) [j..<j + k], s\<lparr> current_chunk' := c + of_nat (j + k) * cs \<rparr>)"
  using assms
proof (induction k arbitrary: s j)
  case 0
  then show ?case by simp
next
  case (Suc k)
  let ?s1 = "s\<lparr> current_chunk' := c + of_nat (Suc j) * cs \<rparr>"
  have "j < n" using Suc.prems(6) by simp
  then have lt: "current_chunk' s < last_chunk' s"
    using Suc.prems bump_less [of j n cs c] by simp
  have a: "allocate sys_new s = Inr (c + of_nat j * cs, ?s1)"
    using allocate_bump [OF Suc.prems(1) lt, of sys_new] Suc.prems(2,4)
    by (simp add: algebra_simps)
  have "allocate_n sys_new k ?s1 =
    Inr (map (\<lambda>i. c + of_nat i * cs) [Suc j..<Suc j + k], ?s1\<lparr> current_chunk' := c + of_nat (Suc j + k) * cs \<rparr>)"
    using Suc.prems by (intro Suc.IH) simp_all
  with a show ?case
    by (simp add: upt_rec [of j])
qed

lemma allocate_n_add:
  "allocate_n sys_new a s = Inr (ps, s') \<Longrightarrow>
   allocate_n sys_new (a + b) s =
     (case allocate_n sys_new b s' of Inl e \<Rightarrow> Inl e | Inr (qs, s'') \<Rightarrow> Inr (ps @ qs, s''))"
proof (induction a arbitrary: s ps)
  case 0
  then show ?case by (auto split: sum.splits)
next
  case (Suc a)
  then show ?case
    by (auto split: sum.splits prod.splits)
qed

lemma ctor_fresh:
  assumes "MemoryPool_ctor m0 chunk_size chunk_alignment n = Inr s0"
  shows "free_chunks' s0 = 0" "current_chunk' s0 = 0" "last_chunk' s0 = 0" "current_block' s0 = 0"
    "allocated s0 = []" "chunks_per_block' s0 = n" "memory s0 = m0" "released s0 = []"
  using assms by (auto simp: MemoryPool_ctor_def split: sum.splits)

lemma first_allocation:
  assumes "free_chunks' s0 = 0" "current_chunk' s0 = 0" "last_chunk' s0 = 0" "allocated s0 = []"
    and "chunk_size' s0 \<noteq> 0" and "sys_new 0 = Some b0"
  shows "allocate sys_new s0 =
    Inr (first_chunk_of (chunk_size' s0) b0,
         s0\<lparr> memory := store_ptr (memory s0) b0 (current_block' s0),
            allocated := [(b0, block_size' s0)],
            current_block' := b0,
            current_chunk' := first_chunk_of (chunk_size' s0) b0 + chunk_size' s0,
            last_chunk' := first_chunk_of (chunk_size' s0) b0 + chunks_per_block' s0 * chunk_size' s0 \<rparr>)"
  using allocate_new_block [of s0 sys_new b0] assms by simp

lemma scenario_ctor:
  "MemoryPool_ctor (\<lambda>_. 0) 12 4 10 =
     Inr \<lparr> chunk_size' = 12, block_size' = 138, chunks_per_block' = 10,
           current_block' = 0, current_chunk' = 0, last_chunk' = 0, free_chunks' = 0,
           memory = \<lambda>_. 0, allocated = [], released = [], printed = [] \<rparr>"
  by (simp add: MemoryPool_ctor_def getAssignment_def pointer_size_def)

lemma example_machine_reached:
  "and_then (MemoryPool_ctor (\<lambda>_. 0) 12 4 10)
     (\<lambda>s. and_then (allocate sys_pages s) (\<lambda>(p, s1). Inr (deallocate p s1))) = Inr example_machine"
  by (simp add: and_then_def MemoryPool_ctor_def getAssignment_def pointer_size_def allocate_def allocateBlock_def
     sys_pages_def deallocate_def example_machine_def Let_def)

lemma example_two_blocks_reached:
  "map_sum id (\<lambda>(ps, s). (ps, MemoryPool.truncate s, allocated s, released s, printed s,
       load_ptr (memory s) 8192, load_ptr (memory s) 4096))
     (and_then (MemoryPool_ctor (\<lambda>_. 0) 12 4 10) (allocate_n sys_pages 11)) =
   Inr ([4116, 4128, 4140, 4152, 4164, 4176, 4188, 4200, 4212, 4224, 8208],
        MemoryPool.truncate example_two_blocks, allocated example_two_blocks,
        released example_two_blocks, printed example_two_blocks, 4096, 0)"
  by code_simp

lemma example_allocate: "allocate sys_pages example_machine =
    Inr (4116, example_machine\<lparr> free_chunks' := 0 \<rparr>)"
  by (simp add: allocate_def example_machine_def load_store_same)

text \<open>
  C2 (every chunk that \<^verbatim>\<open>allocate\<close> returns lies, with all its \<^verbatim>\<open>chunk_size_\<close> bytes, inside
  a block of the pool): the pool \<^verbatim>\<open>MemoryPool(12, 4, 10)\<close> requests blocks of
  \<open>8 + (12 + 1) * 10 = 138\<close> bytes. With its block at 4096 the first chunk is at
  \<open>4104 + (12 - 4104 mod 12) = 4116\<close>, so the tenth allocation returns 4224, whose twelve
  bytes end at 4236, two bytes past the end of the block at 4234: the chunk lies in no
  block of the pool.
\<close>

theorem C2_last_chunk_overruns_block:
  "and_then (MemoryPool_ctor (\<lambda>_. 0) 12 4 10)
     (\<lambda>s0. and_then (allocate_n sys_pages 10 s0)
        (\<lambda>(ps, s). Inr (last ps, allocated s, chunk_size' s,
                        list_ex (chunk_within (chunk_size' s) (last ps)) (allocated s))))
   = Inr (4224, [(4096, 138)], 12, False)"
  by code_simp

text \<open>
  C6, as the code has it: a pool as constructed owns no block, so its first allocation
  obtains one. With a non-zero chunk size, at least one chunk per block, a system
  allocator that serves two requests, and a first block whose chunks end inside the
  address space, the pool owns no block before the first call, one block after each of
  the calls 1 to \<open>chunks_per_block\<close>, and two blocks after call \<open>chunks_per_block + 1\<close>:
  the calls that obtain a block are the first and the \<open>(chunks_per_block + 1)\<close>-th.
\<close>

theorem C6_two_block_allocations:
  assumes ctor: "MemoryPool_ctor m0 chunk_size chunk_alignment n = Inr s0"
    and cs: "chunk_size' s0 \<noteq> 0" and n: "n \<noteq> 0"
    and b0: "sys_new 0 = Some b0" and b1: "sys_new 1 = Some b1"
    and fit: "unat (first_chunk_of (chunk_size' s0) b0) + unat n * unat (chunk_size' s0) < 2 ^ 64"
  shows "blocks_after sys_new 0 s0 = Inr 0 \<and>
         (\<forall>k. 1 \<le> k \<and> k \<le> unat n \<longrightarrow> blocks_after sys_new k s0 = Inr 1) \<and>
         blocks_after sys_new (unat n + 1) s0 = Inr 2"
proof -
  define cs where "cs = chunk_size' s0"
  define c where "c = first_chunk_of cs b0"
  define s1 where "s1 = s0\<lparr> memory := store_ptr (memory s0) b0 (current_block' s0),
            allocated := [(b0, block_size' s0)],
            current_block' := b0,
            current_chunk' := c + cs,
            last_chunk' := c + chunks_per_block' s0 * cs \<rparr>"
  note fr = ctor_fresh [OF ctor]
  have a1: "allocate sys_new s0 = Inr (c, s1)"
    using first_allocation [of s0 sys_new b0] fr(1,2,3,5) cs b0 by (simp add: s1_def c_def cs_def)
  have s1: "free_chunks' s1 = 0" "chunk_size' s1 = cs" "current_chunk' s1 = c + of_nat 1 * cs"
    "last_chunk' s1 = c + of_nat (unat n) * cs" "allocated s1 = [(b0, block_size' s0)]"
    using fr by (simp_all add: s1_def cs_def)
  have csz: "cs \<noteq> 0" using cs by (simp add: cs_def)
  have fit': "unat c + unat n * unat cs < 2 ^ 64"
    using fit by (simp add: c_def cs_def)
  have bump: "\<And>k. 1 + k \<le> unat n \<Longrightarrow> allocate_n sys_new k s1 =
      Inr (map (\<lambda>i. c + of_nat i * cs) [1..<1 + k], s1\<lparr> current_chunk' := c + of_nat (1 + k) * cs \<rparr>)"
    by (rule allocate_n_bump [OF s1(1,2) csz s1(3,4) _ fit'])
  have zero: "blocks_after sys_new 0 s0 = Inr 0"
    using fr by (simp add: blocks_after_def)
  have mid: "blocks_after sys_new k s0 = Inr 1" if "1 \<le> k" "k \<le> unat n" for k
  proof -
    from that obtain k' where k: "k = Suc k'" by (cases k) auto
    with that have "1 + k' \<le> unat n" by simp
    from bump [OF this] a1 show ?thesis
      by (simp add: blocks_after_def k s1(5))
  qed
  have npos: "1 \<le> unat n"
    using n by (simp add: unat_gt_0 Suc_le_eq)
  define s2 where "s2 = s1\<lparr> current_chunk' := c + of_nat (unat n) * cs \<rparr>"
  have b2: "allocate_n sys_new (unat n - 1) s1 =
      Inr (map (\<lambda>i. c + of_nat i * cs) [1..<unat n], s2)"
    using bump [of "unat n - 1"] npos by (simp add: s2_def)
  have s2: "free_chunks' s2 = 0" "last_chunk' s2 \<le> current_chunk' s2"
    "sys_new (length (allocated s2)) = Some b1" "chunk_size' s2 \<noteq> 0"
    using s1 b1 csz by (simp_all add: s2_def)
  have a2: "\<exists>p s3. allocate sys_new s2 = Inr (p, s3) \<and> length (allocated s3) = 2"
    using allocate_new_block [of s2 sys_new b1] s2 by (simp add: s2_def s1(5))
  have "allocate_n sys_new (Suc (unat n - 1)) s0 =
      Inr (c # map (\<lambda>i. c + of_nat i * cs) [1..<unat n], s2)"
    using a1 b2 by simp
  then have "allocate_n sys_new (Suc (unat n - 1) + 1) s0 =
      (case allocate_n sys_new 1 s2 of Inl e \<Rightarrow> Inl e
       | Inr (qs, s'') \<Rightarrow> Inr ((c # map (\<lambda>i. c + of_nat i * cs) [1..<unat n]) @ qs, s''))"
    by (rule allocate_n_add)
  moreover have "Suc (unat n - 1) + 1 = unat n + 1"
    using npos by simp
  ultimately have last: "blocks_after sys_new (unat n + 1) s0 = Inr 2"
    using a2 by (auto simp: blocks_after_def)
  show ?thesis
    using zero mid last by blast
qed

text \<open>
C6 at \<^verbatim>\<open>MemoryPool(12, 4, 10)\<close> with blocks at 4096 and 8192.
\<close>

theorem C6_two_block_allocations_witness:
  "MemoryPool_ctor (\<lambda>_. 0) 12 4 10 = Inr scenario_pool \<and>
   chunk_size' scenario_pool \<noteq> 0 \<and> (10 :: size_t) \<noteq> 0 \<and>
   sys_pages 0 = Some 4096 \<and> sys_pages 1 = Some 8192 \<and>
   unat (first_chunk_of (chunk_size' scenario_pool) 4096) + unat (10 :: size_t) * unat (chunk_size' scenario_pool) < 2 ^ 64 \<and>
   blocks_after sys_pages 0 scenario_pool = Inr 0 \<and>
   blocks_after sys_pages 1 scenario_pool = Inr 1 \<and>
   blocks_after sys_pages 10 scenario_pool = Inr 1 \<and>
   blocks_after sys_pages 11 scenario_pool = Inr 2"
proof -
  have ctor: "MemoryPool_ctor (\<lambda>_. 0) 12 4 10 = Inr scenario_pool"
    by (simp add: scenario_ctor scenario_pool_def)
  have cs: "chunk_size' scenario_pool \<noteq> 0"
    by (simp add: scenario_pool_def)
  have n: "(10 :: size_t) \<noteq> 0"
    by simp
  have b0: "sys_pages 0 = Some 4096" and b1: "sys_pages 1 = Some 8192"
    by (simp_all add: sys_pages_def)
  have fit: "unat (first_chunk_of (chunk_size' scenario_pool) 4096) +
      unat (10 :: size_t) * unat (chunk_size' scenario_pool) < 2 ^ 64"
    by (simp add: scenario_pool_def first_chunk_of_def pointer_size_def)
  note t = C6_two_block_allocations [OF ctor cs n b0 b1 fit]
  have u: "unat (10 :: size_t) = 10"
    by simp
  from t have 0: "blocks_after sys_pages 0 scenario_pool = Inr 0"
    by blast
  from t u have 1: "blocks_after sys_pages 1 scenario_pool = Inr 1"
    "blocks_after sys_pages 10 scenario_pool = Inr 1"
    by simp_all
  from t u have 2: "blocks_after sys_pages 11 scenario_pool = Inr 2"
    by simp
  show ?thesis
    using ctor cs n b0 b1 fit 0 1 2 by blast
qed

text \<open>
  C6 as stated (exactly one block allocation in \<open>chunks_per_block + 1\<close> calls, on the last
  of them) fails: \<^verbatim>\<open>MemoryPool(12, 4, 10)\<close> owns a block after its first allocation, and two
  after its eleventh.
\<close>

theorem C6_first_call_allocates_a_block:
  "and_then (MemoryPool_ctor (\<lambda>_. 0) 12 4 10) (blocks_after sys_pages 1) = Inr 1 \<and>
   and_then (MemoryPool_ctor (\<lambda>_. 0) 12 4 10) (blocks_after sys_pages 11) = Inr 2"
  by code_simp

section \<open>The free list\<close>

text \<open>
  The pop: when the free list is not empty, \<^verbatim>\<open>allocate\<close> returns its head and makes the
  word stored at the head the new head. It obtains no block, leaves the block list, the
  bump cursor and its limit as they are, and writes no memory. When the free list is the
  chain \<open>fl\<close>, its head is the chunk returned and its tail is the free list afterwards.
  The memory the call reads is the eight bytes from the head; they belong to the popped
  chunk when the chunk size is at least eight.
\<close>

lemma allocate_pops_free_list:
  assumes "free_chunks' s \<noteq> 0"
  shows "\<exists>s'. allocate sys_new s = Inr (free_chunks' s, s') \<and>
           free_chunks' s' = load_ptr (memory s) (free_chunks' s) \<and>
           allocated s' = allocated s \<and>
           current_block' s' = current_block' s \<and>
           current_chunk' s' = current_chunk' s \<and>
           last_chunk' s' = last_chunk' s \<and>
           memory s' = memory s \<and>
           (\<forall>fl. chain (memory s) (free_chunks' s) fl 0 \<longrightarrow>
                 fl \<noteq> [] \<and> hd fl = free_chunks' s \<and> chain (memory s') (free_chunks' s') (tl fl) 0) \<and>
           (\<forall>m'. (\<forall>i<8. m' (free_chunks' s + i) = memory s (free_chunks' s + i)) \<longrightarrow>
                 (\<exists>t. allocate sys_new (s\<lparr> memory := m' \<rparr>) = Inr (free_chunks' s, t) \<and>
                      free_chunks' t = free_chunks' s'))"
proof -
  let ?s' = "s\<lparr> free_chunks' := load_ptr (memory s) (free_chunks' s) \<rparr>"
  have a: "allocate sys_new s = Inr (free_chunks' s, ?s')"
    using assms by (simp add: allocate_def)
  have c: "\<And>fl. chain (memory s) (free_chunks' s) fl 0 \<Longrightarrow>
        fl \<noteq> [] \<and> hd fl = free_chunks' s \<and> chain (memory ?s') (free_chunks' ?s') (tl fl) 0"
  proof -
    fix fl assume "chain (memory s) (free_chunks' s) fl 0"
    then show "fl \<noteq> [] \<and> hd fl = free_chunks' s \<and> chain (memory ?s') (free_chunks' ?s') (tl fl) 0"
      using assms by (cases fl) auto
  qed
  have f: "\<And>m'. (\<forall>i<8. m' (free_chunks' s + i) = memory s (free_chunks' s + i)) \<Longrightarrow>
        (\<exists>t. allocate sys_new (s\<lparr> memory := m' \<rparr>) = Inr (free_chunks' s, t) \<and>
             free_chunks' t = free_chunks' ?s')"
  proof -
    fix m' assume "\<forall>i<8. m' (free_chunks' s + i) = memory s (free_chunks' s + i)"
    then have "load_ptr m' (free_chunks' s) = load_ptr (memory s) (free_chunks' s)"
      by (intro load_ptr_cong) simp
    then show "\<exists>t. allocate sys_new (s\<lparr> memory := m' \<rparr>) = Inr (free_chunks' s, t) \<and>
             free_chunks' t = free_chunks' ?s'"
      using assms by (simp add: allocate_def)
  qed
  show ?thesis
    apply (rule exI [of _ ?s'])
    using a c f by simp
qed

text \<open>
The pop at a pool whose free list holds the one chunk 4116.
\<close>

lemma allocate_pops_free_list_example:
  "free_chunks' example_machine \<noteq> 0 \<and>
   (\<exists>s'. allocate sys_pages example_machine = Inr (4116, s') \<and>
         free_chunks' s' = 0 \<and> allocated s' = [(4096, 138)] \<and> current_chunk' s' = 4128 \<and>
         memory s' = memory example_machine)"
proof -
  have h: "free_chunks' example_machine \<noteq> 0"
    by (simp add: example_machine_def)
  have l: "load_ptr (memory example_machine) 4116 = 0"
    by (simp add: example_machine_def load_store_same)
  show ?thesis
    using allocate_pops_free_list [OF h, of sys_pages] l
    by (auto simp: example_machine_def)
qed

text \<open>
  C7 (a pop touches no memory outside the popped chunk): the pool \<^verbatim>\<open>MemoryPool(8, 5, 3)\<close>
  gets the chunk size \<open>8 div 5 * (5 + 1) = 6\<close>. After the allocations of 4110 and 4116
  and the deallocation of 4110 the free list holds the chunk 4110, the six bytes from 4110
  to 4115; byte 4116 is the first byte of the chunk 4116, which the caller holds.
  \<^verbatim>\<open>allocate\<close> pops 4110 and reads its link from the eight bytes 4110 to 4117: the head
  of the free list afterwards is 0 when byte 4116 holds 0, and \<open>0xFF000000000000\<close> when
  the caller has stored 255 there. The pop reads two bytes of the neighbouring chunk.
\<close>

theorem C7_pop_reads_past_short_chunk:
  "and_then (MemoryPool_ctor (\<lambda>_. 0) 8 5 3)
     (\<lambda>s0. and_then (allocate_n sys_pages 2 s0)
        (\<lambda>(ps, s1). and_then (allocate sys_pages (deallocate 4110 s1))
           (\<lambda>(p, t). and_then
              (allocate sys_pages
                 ((deallocate 4110 s1)\<lparr> memory := (memory (deallocate 4110 s1))(4116 := 255) \<rparr>))
              (\<lambda>(p', t'). Inr (chunk_size' s0, ps, p, free_chunks' t, p', free_chunks' t')))))
   = Inr (6, [4110, 4116], 4110, 0, 4110, 0xFF000000000000)"
  by code_simp



text \<open>
  The frame of \<^verbatim>\<open>deallocate\<close>: it leaves \<^verbatim>\<open>chunk_size_\<close>, \<^verbatim>\<open>block_size_\<close>,
  \<^verbatim>\<open>chunks_per_block_\<close>, \<^verbatim>\<open>current_block_\<close>, the bump cursor and its limit
  unchanged, as well as the blocks obtained and released, and every byte of memory outside
  the eight bytes from \<open>p\<close> keeps its value. The block list keeps its nodes when these
  eight bytes share no byte with the link words of the blocks.
\<close>

lemma deallocate_frame:
  "chunk_size' (deallocate p s) = chunk_size' s \<and>
   block_size' (deallocate p s) = block_size' s \<and>
   chunks_per_block' (deallocate p s) = chunks_per_block' s \<and>
   current_block' (deallocate p s) = current_block' s \<and>
   current_chunk' (deallocate p s) = current_chunk' s \<and>
   last_chunk' (deallocate p s) = last_chunk' s \<and>
   allocated (deallocate p s) = allocated s \<and>
   released (deallocate p s) = released s \<and>
   printed (deallocate p s) = printed s \<and>
   (\<forall>x. 8 \<le> x - p \<longrightarrow> memory (deallocate p s) x = memory s x) \<and>
   (\<forall>bs. chain (memory s) (current_block' s) bs 0 \<and> list_all (apart p) bs \<longrightarrow>
         chain (memory (deallocate p s)) (current_block' (deallocate p s)) bs 0)"
  by (simp add: deallocate_def store_ptr_frame chain_store_apart)

text \<open>
  C10 (\<^verbatim>\<open>deallocate\<close> of a pointer that \<^verbatim>\<open>allocate\<close> returned leaves the block list
  unchanged): the pool \<^verbatim>\<open>MemoryPool(20, 4, 1)\<close> requests blocks of \<open>8 + (20 + 1) * 1 = 29\<close>
  bytes. With its first block at 4192 the padding is \<open>20 - 4200 mod 20 = 20\<close>, so the
  first allocation returns the chunk 4220, which begins in the last byte of the block
  \<open>[4192, 4221)\<close>. The second allocation obtains the block at 4224 and stores the link to
  4192 in the bytes 4224 to 4231; the block list is 4224, 4192. \<^verbatim>\<open>deallocate(4220)\<close> writes
  the null head of the free list into the bytes 4220 to 4227 and so clears the link of the
  block 4224: \<^verbatim>\<open>current_block_\<close> is still 4224, but the block list is now 4224 alone.
\<close>

theorem C10_deallocate_cuts_block_list:
  "and_then (MemoryPool_ctor (\<lambda>_. 0) 20 4 1)
     (\<lambda>s0. and_then (allocate_n sys_tight 2 s0)
        (\<lambda>(ps, s1). Inr (ps, allocated s1, current_block' s1,
             chain (memory s1) (current_block' s1) [4224, 4192] 0,
             current_block' (deallocate 4220 s1),
             load_ptr (memory (deallocate 4220 s1)) 4224,
             chain (memory (deallocate 4220 s1)) (current_block' (deallocate 4220 s1)) [4224] 0)))
   = Inr ([4220, 4240], [(4224, 29), (4192, 29)], 4224, True, 4224, 0, True)"
  by code_simp

section \<open>Reuse of freed chunks\<close>

text \<open>
  Deallocating chunks whose link words are pairwise disjoint, none of them null, builds
  the chain of those chunks in reverse order; as many allocations then return exactly that
  chain and put the head of the free list back where it was.
\<close>

lemma deallocate_all_Cons: "deallocate_all (q # qs) s = deallocate_all qs (deallocate q s)"
  by (simp add: deallocate_all_def)

lemma deallocate_all_frame:
  "allocated (deallocate_all qs s) = allocated s \<and>
   current_block' (deallocate_all qs s) = current_block' s \<and>
   current_chunk' (deallocate_all qs s) = current_chunk' s \<and>
   last_chunk' (deallocate_all qs s) = last_chunk' s \<and>
   chunk_size' (deallocate_all qs s) = chunk_size' s"
  by (induction qs arbitrary: s) (simp_all add: deallocate_all_def deallocate_def)

lemma load_deallocate_all:
  "list_all (apart q) qs \<Longrightarrow>
   load_ptr (memory (deallocate_all qs s)) q = load_ptr (memory s) q"
proof (induction qs arbitrary: s)
  case Nil
  then show ?case by (simp add: deallocate_all_def)
next
  case (Cons x qs)
  then have "apart q x" and l: "list_all (apart q) qs"
    by simp_all
  then have "apart x q"
    using apart_sym by blast
  with l show ?case
    using Cons.IH [of "deallocate x s"]
    by (simp add: deallocate_all_Cons deallocate_def load_store_apart)
qed

lemma deallocate_all_chain:
  "separated qs \<Longrightarrow> 0 \<notin> set qs \<Longrightarrow>
   chain (memory (deallocate_all qs s)) (free_chunks' (deallocate_all qs s)) (rev qs) (free_chunks' s)"
proof (induction qs arbitrary: s)
  case Nil
  then show ?case by (simp add: deallocate_all_def)
next
  case (Cons q qs)
  let ?s1 = "deallocate q s"
  let ?f = "deallocate_all qs ?s1"
  from Cons.prems have q: "q \<noteq> 0" "list_all (apart q) qs" "separated qs" "0 \<notin> set qs"
    by auto
  have "chain (memory ?f) (free_chunks' ?f) (rev qs) (free_chunks' ?s1)"
    using q by (intro Cons.IH)
  moreover have "free_chunks' ?s1 = q"
    using q(1) by (simp add: deallocate_def)
  moreover have "load_ptr (memory ?f) q = free_chunks' s"
    using q(1,2) by (simp add: load_deallocate_all deallocate_def load_store_same)
  ultimately show ?case
    using q(1) by (auto simp: deallocate_all_Cons chain_append)
qed

lemma chain_allocate_n:
  "chain (memory s) (free_chunks' s) xs t \<Longrightarrow>
   allocate_n sys_new (length xs) s = Inr (xs, s\<lparr> free_chunks' := t \<rparr>)"
proof (induction xs arbitrary: s)
  case Nil
  then show ?case by simp
next
  case (Cons x xs)
  let ?s1 = "s\<lparr> free_chunks' := load_ptr (memory s) x \<rparr>"
  from Cons.prems have x: "free_chunks' s = x" "x \<noteq> 0"
    and c: "chain (memory ?s1) (free_chunks' ?s1) xs t"
    by simp_all
  have "allocate sys_new s = Inr (x, ?s1)"
    using x by (simp add: allocate_def)
  moreover have "allocate_n sys_new (length xs) ?s1 = Inr (xs, ?s1\<lparr> free_chunks' := t \<rparr>)"
    by (rule Cons.IH [OF c])
  ultimately show ?case
    by simp
qed

lemma reuse_lifo:
  assumes "separated ps" and "0 \<notin> set ps"
  shows "allocate_n sys_new (length ps) (deallocate_all ps s) =
           Inr (rev ps, (deallocate_all ps s)\<lparr> free_chunks' := free_chunks' s \<rparr>)"
  using chain_allocate_n [OF deallocate_all_chain [OF assms], where sys_new = sys_new] by simp

text \<open>
  C3 (allocating N chunks, freeing all N and allocating N again returns the same addresses,
  most recently freed first): the pool \<^verbatim>\<open>MemoryPool(8, 5, 3)\<close> gets the chunk size
  \<open>8 div 5 * (5 + 1) = 6\<close>, less than the eight bytes of the link that
  \<^verbatim>\<open>deallocate\<close> writes. Its chunks 4110, 4116 and 4122 overlap each other's links:
  freeing 4122 overwrites the two highest bytes of the link stored at 4116. The second
  round returns 4122 and 4116 and then the address \<open>0x101400000000100E\<close>, which is none
  of the three chunks.
\<close>

theorem C3_reuse_breaks_on_short_chunks:
  "and_then (MemoryPool_ctor (\<lambda>_. 0) 8 5 3)
     (\<lambda>s0. and_then (allocate_n sys_pages 3 s0)
        (\<lambda>(ps, s1). and_then (allocate_n sys_pages 3 (deallocate_all ps s1))
           (\<lambda>(qs, s2). Inr (chunk_size' s0, ps, qs, length (allocated s2)))))
   = Inr (6, [4110, 4116, 4122], [4122, 4116, 0x101400000000100E], 1)"
  by code_simp

section \<open>Destruction\<close>

lemma dtor_chain:
  "chain (memory s) (current_block' s) bs 0 \<Longrightarrow>
   MemoryPool_dtor s =
     Some (s\<lparr> printed := printed s @ bs, released := released s @ bs, current_block' := 0 \<rparr>)"
proof (induction bs arbitrary: s)
  case Nil
  then show ?case
    by (subst MemoryPool_dtor.simps) simp
next
  case (Cons b bs)
  let ?s1 = "s\<lparr> printed := printed s @ [current_block' s],
              released := released s @ [current_block' s],
              current_block' := load_ptr (memory s) (current_block' s) \<rparr>"
  from Cons.prems have b: "current_block' s = b" "b \<noteq> 0"
    and c: "chain (memory ?s1) (current_block' ?s1) bs 0"
    by simp_all
  have "MemoryPool_dtor s = MemoryPool_dtor ?s1"
    using b by (subst MemoryPool_dtor.simps) simp
  also have "\<dots> = Some (?s1\<lparr> printed := printed ?s1 @ bs, released := released ?s1 @ bs, current_block' := 0 \<rparr>)"
    by (rule Cons.IH [OF c])
  finally show ?case
    using b by simp
qed

lemma block_list_ctor:
  "MemoryPool_ctor m0 chunk_size chunk_alignment n = Inr s \<Longrightarrow>
   chain (memory s) (current_block' s) (map fst (allocated s)) 0"
  by (auto simp: MemoryPool_ctor_def split: sum.splits)

lemma block_list_allocateBlock:
  assumes "chain (memory s) (current_block' s) (map fst (allocated s)) 0"
    and "allocateBlock sys_new sz s = Inr s'"
    and "\<And>b. sys_new (length (allocated s)) = Some b \<Longrightarrow>
           b \<noteq> 0 \<and> list_all (apart b) (map fst (allocated s))"
  shows "chain (memory s') (current_block' s') (map fst (allocated s')) 0"
proof -
  from assms(2) obtain b where b: "sys_new (length (allocated s)) = Some b"
    and s': "s' = s\<lparr> memory := store_ptr (memory s) b (current_block' s),
                     allocated := (b, block_size' s) # allocated s,
                     current_block' := b,
                     current_chunk' := b + pointer_size + (chunk_size' s - (b + pointer_size) mod chunk_size' s),
                     last_chunk' := b + pointer_size + (chunk_size' s - (b + pointer_size) mod chunk_size' s)
                        + chunks_per_block' s * chunk_size' s \<rparr>"
    by (auto simp: allocateBlock_def Let_def split: option.splits if_splits)
  from assms(3) [OF b] have "b \<noteq> 0" "list_all (apart b) (map fst (allocated s))"
    by simp_all
  then show ?thesis
    using assms(1) by (simp add: s' load_store_same chain_store_apart)
qed

lemma block_list_allocate:
  assumes "chain (memory s) (current_block' s) (map fst (allocated s)) 0"
    and "allocate sys_new s = Inr (p, s')"
    and "\<And>b. sys_new (length (allocated s)) = Some b \<Longrightarrow>
           b \<noteq> 0 \<and> list_all (apart b) (map fst (allocated s))"
  shows "chain (memory s') (current_block' s') (map fst (allocated s')) 0"
proof (cases "free_chunks' s \<noteq> 0")
  case True
  with assms(1,2) show ?thesis
    by (auto simp: allocate_def)
next
  case False
  show ?thesis
  proof (cases "last_chunk' s \<le> current_chunk' s")
    case True
    with False assms(2) obtain s1 where s1: "allocateBlock sys_new (block_size' s) s = Inr s1"
      and s': "s' = s1\<lparr> current_chunk' := current_chunk' s1 + chunk_size' s1 \<rparr>"
      by (auto simp: allocate_def split: sum.splits)
    from block_list_allocateBlock [OF assms(1) s1 assms(3)] show ?thesis
      by (simp add: s')
  next
    case False
    with \<open>\<not> free_chunks' s \<noteq> 0\<close> assms(1,2) show ?thesis
      by (auto simp: allocate_def)
  qed
qed

lemma block_list_deallocate:
  assumes "chain (memory s) (current_block' s) (map fst (allocated s)) 0"
    and "list_all (apart p) (map fst (allocated s))"
  shows "chain (memory (deallocate p s)) (current_block' (deallocate p s))
           (map fst (allocated (deallocate p s))) 0"
  using assms by (simp add: deallocate_def chain_store_apart)

text \<open>
  The destructor on an intact block list: when the links in memory lead from
  \<^verbatim>\<open>current_block_\<close> through exactly the blocks that the pool has obtained, the
  destructor terminates, passes every one of these blocks to \<^verbatim>\<open>delete[]\<close> in list order,
  each once (they are distinct), and leaves \<^verbatim>\<open>current_block_\<close> null. It writes no
  memory and changes nothing else of the pool; and it reads only the link words of the
  blocks: with any other memory contents that agree on these words it releases the same
  blocks. The constructor establishes such a list (\<open>block_list_ctor\<close>); a new block and
  a deallocation keep it when the eight bytes they write share no byte with the links of
  the blocks (\<open>block_list_allocate\<close>, \<open>block_list_deallocate\<close>).
\<close>

lemma destructor_releases_linked_blocks:
  assumes "chain (memory s) (current_block' s) (map fst (allocated s)) 0"
  shows "\<exists>s'. MemoryPool_dtor s = Some s' \<and>
           released s' = released s @ map fst (allocated s) \<and>
           distinct (map fst (allocated s)) \<and>
           current_block' s' = 0 \<and>
           memory s' = memory s \<and>
           free_chunks' s' = free_chunks' s \<and>
           current_chunk' s' = current_chunk' s \<and>
           last_chunk' s' = last_chunk' s \<and>
           allocated s' = allocated s \<and>
           printed s' = printed s @ map fst (allocated s) \<and>
           (\<forall>m'. (\<forall>b \<in> set (map fst (allocated s)). load_ptr m' b = load_ptr (memory s) b) \<longrightarrow>
              (\<exists>t. MemoryPool_dtor (s\<lparr> memory := m' \<rparr>) = Some t \<and>
                   released t = released s @ map fst (allocated s) \<and> memory t = m'))"
proof -
  have other: "\<exists>t. MemoryPool_dtor (s\<lparr> memory := m' \<rparr>) = Some t \<and>
                   released t = released s @ map fst (allocated s) \<and> memory t = m'"
    if "\<forall>b \<in> set (map fst (allocated s)). load_ptr m' b = load_ptr (memory s) b" for m'
  proof -
    from that have "chain m' (current_block' s) (map fst (allocated s)) 0"
      using assms chain_cong [of "map fst (allocated s)" m' "memory s"] by blast
    then have "chain (memory (s\<lparr> memory := m' \<rparr>)) (current_block' (s\<lparr> memory := m' \<rparr>))
        (map fst (allocated s)) 0"
      by simp
    from dtor_chain [OF this] show ?thesis
      by simp
  qed
  show ?thesis
    using dtor_chain [OF assms] chain_distinct [OF assms] other by simp
qed

text \<open>
The destructor at a pool with the two blocks 8192 and 4096.
\<close>

lemma destructor_releases_linked_blocks_example:
  "chain (memory example_two_blocks) (current_block' example_two_blocks)
     (map fst (allocated example_two_blocks)) 0 \<and>
   (\<exists>s'. MemoryPool_dtor example_two_blocks = Some s' \<and> released s' = [8192, 4096] \<and>
         current_block' s' = 0 \<and> memory s' = memory example_two_blocks)"
proof -
  have c: "chain (memory example_two_blocks) (current_block' example_two_blocks)
     (map fst (allocated example_two_blocks)) 0"
    by (simp add: example_two_blocks_def load_store_same load_store_apart apart_def)
  have r: "released example_two_blocks = []" "map fst (allocated example_two_blocks) = [8192, 4096]"
    by (simp_all add: example_two_blocks_def)
  from destructor_releases_linked_blocks [OF c]
  obtain s' where "MemoryPool_dtor example_two_blocks = Some s'"
    "released s' = released example_two_blocks @ map fst (allocated example_two_blocks)"
    "current_block' s' = 0" "memory s' = memory example_two_blocks"
    by blast
  then show ?thesis
    using c r by simp
qed

text \<open>
  C9 (the destructor releases every block that the pool has obtained, each once): in the
  pool \<^verbatim>\<open>MemoryPool(20, 4, 1)\<close> with blocks of 29 bytes at 4192 and 4224, two allocations
  return 4220 and 4240 and the pool owns both blocks. The chunk 4220 begins in the last
  byte of the block \<open>[4192, 4221)\<close>, and its first eight bytes cover the first four bytes of
  the block at 4224, where the link to 4192 is stored. After \<^verbatim>\<open>deallocate(4220)\<close> that link
  is null, and the destructor passes only the block 4224 to \<^verbatim>\<open>delete[]\<close>: the block
  4192 is never released.
\<close>

theorem C9_destructor_misses_block:
  "and_then (MemoryPool_ctor (\<lambda>_. 0) 20 4 1)
     (\<lambda>s0. and_then (allocate_n sys_tight 2 s0)
        (\<lambda>(ps, s1). Inr (ps, allocated s1,
             map_option released (MemoryPool_dtor (deallocate 4220 s1)))))
   = Inr ([4220, 4240], [(4224, 29), (4192, 29)], Some [4224])"
  by code_simp

section \<open>The typed pool\<close>

text \<open>
  The handled failure of \<^verbatim>\<open>make\<close>: when the constructor of \<open>T\<close> throws an exception
  derived from \<^verbatim>\<open>std::exception\<close> on a non-null chunk, \<^verbatim>\<open>make\<close> returns the null
  pointer and has passed the chunk to \<^verbatim>\<open>deallocate\<close>: the chunk is the head of the free
  list and links to the previous head. No block is obtained for it, and the next
  \<^verbatim>\<open>make\<close> whose constructor returns yields that same chunk and puts the free list
  back as it was.
\<close>

lemma make_reclaims_on_std_exception:
  assumes "allocate sys_new s = Inr (p, t)" and "p \<noteq> 0"
    and "construct p (memory t) = ThrowsStd m"
  shows "\<exists>s'. make sys_new construct s = (Inr 0, s') \<and>
           s' = deallocate p (t\<lparr> memory := m \<rparr>) \<and>
           free_chunks' s' = p \<and>
           load_ptr (memory s') p = free_chunks' t \<and>
           allocated s' = allocated t \<and>
           current_chunk' s' = current_chunk' t \<and>
           (\<forall>construct2 m2. construct2 p (memory s') = Returns m2 \<longrightarrow>
              (\<exists>s''. make sys_new construct2 s' = (Inr p, s'') \<and>
                     free_chunks' s'' = free_chunks' t \<and>
                     allocated s'' = allocated t \<and>
                     current_chunk' s'' = current_chunk' t \<and>
                     memory s'' = m2))"
proof -
  let ?s' = "deallocate p (t\<lparr> memory := m \<rparr>)"
  have 1: "make sys_new construct s = (Inr 0, ?s')"
    using assms by (simp add: make_def)
  have 2: "free_chunks' ?s' = p" "load_ptr (memory ?s') p = free_chunks' t"
    "allocated ?s' = allocated t" "current_chunk' ?s' = current_chunk' t"
    using assms(2) by (simp_all add: deallocate_def load_store_same)
  have 3: "allocate sys_new ?s' = Inr (p, ?s'\<lparr> free_chunks' := free_chunks' t \<rparr>)"
    using assms(2) 2 by (simp add: allocate_def)
  have 4: "\<And>construct2 m2. construct2 p (memory ?s') = Returns m2 \<Longrightarrow>
      make sys_new construct2 ?s' = (Inr p, ?s'\<lparr> free_chunks' := free_chunks' t, memory := m2 \<rparr>)"
    using 3 by (simp add: make_def)
  show ?thesis
    apply (rule exI [of _ ?s'])
    using 1 2 4 by simp
qed

text \<open>
The handled failure at a pool whose next chunk is 4116.
\<close>

lemma make_reclaims_on_std_exception_example:
  "allocate sys_pages example_machine = Inr (4116, example_machine\<lparr> free_chunks' := 0 \<rparr>) \<and>
   (4116 :: addr) \<noteq> 0 \<and>
   throws_std 4116 (memory (example_machine\<lparr> free_chunks' := 0 \<rparr>)) = ThrowsStd (memory example_machine) \<and>
   (\<exists>s'. make sys_pages throws_std example_machine = (Inr 0, s') \<and> free_chunks' s' = 4116 \<and>
      returns 4116 (memory s') = Returns (memory s') \<and>
      (\<exists>s''. make sys_pages returns s' = (Inr 4116, s'') \<and> free_chunks' s'' = 0 \<and>
             allocated s'' = [(4096, 138)]))"
proof -
  have n: "(4116 :: addr) \<noteq> 0"
    by simp
  have c: "throws_std 4116 (memory (example_machine\<lparr> free_chunks' := 0 \<rparr>)) = ThrowsStd (memory example_machine)"
    by (simp add: throws_std_def)
  have r: "\<And>m. returns 4116 m = Returns m"
    by (simp add: returns_def)
  have a: "allocated example_machine = [(4096, 138)]"
    by (simp add: example_machine_def)
  from make_reclaims_on_std_exception [where construct = throws_std, OF example_allocate n c]
  obtain s' where s': "make sys_pages throws_std example_machine = (Inr 0, s')"
      "free_chunks' s' = 4116"
      "\<forall>construct2 m2. construct2 4116 (memory s') = Returns m2 \<longrightarrow>
         (\<exists>s''. make sys_pages construct2 s' = (Inr 4116, s'') \<and>
                free_chunks' s'' = free_chunks' (example_machine\<lparr> free_chunks' := 0 \<rparr>) \<and>
                allocated s'' = allocated (example_machine\<lparr> free_chunks' := 0 \<rparr>) \<and>
                current_chunk' s'' = current_chunk' (example_machine\<lparr> free_chunks' := 0 \<rparr>) \<and>
                memory s'' = m2)"
    by blast
  from s'(3) r [of "memory s'"]
  obtain s'' where "make sys_pages returns s' = (Inr 4116, s'')" "free_chunks' s'' = 0"
      "allocated s'' = [(4096, 138)]"
    using a by fastforce
  then show ?thesis
    using example_allocate n c s'(1,2) r by blast
qed

text \<open>
  C4 (when the constructor raises, the chunk goes back to the allocator and no chunk is
  leaked): the handler of \<^verbatim>\<open>make\<close> is \<^verbatim>\<open>catch(std::exception& e)\<close>. When the
  constructor throws a value of another type, such as \<^verbatim>\<open>throw 42\<close>, the handler does not
  run. In \<^verbatim>\<open>TypedMemoryPool\<close> over \<^verbatim>\<open>MemoryPool(12, 4, 10)\<close> the exception leaves
  \<^verbatim>\<open>make\<close>, the free list stays empty while the bump cursor has passed the chunk 4116,
  and the next \<^verbatim>\<open>make\<close> returns 4128: the chunk 4116 is lost.
\<close>

theorem C4_uncaught_exception_leaks_chunk:
  "and_then (TypedMemoryPool_ctor (\<lambda>_. 0) 12 4 10)
     (\<lambda>s. case make sys_pages throws_other s of
            (r, s') \<Rightarrow> Inr (r, free_chunks' s', current_chunk' s', fst (make sys_pages returns s')))
   = Inr (Inl Uncaught, 0, 4128, Inr 4128)"
  by (simp add: and_then_def TypedMemoryPool_ctor_def MemoryPool_ctor_def getAssignment_def pointer_size_def
      make_def allocate_def allocateBlock_def sys_pages_def throws_other_def returns_def Let_def)

text \<open>
  The handled cases of \<^verbatim>\<open>destroy\<close>: for the null pointer it changes nothing. For any
  other pointer, when the destructor returns or throws an exception derived from
  \<^verbatim>\<open>std::exception\<close>, \<^verbatim>\<open>destroy\<close> returns normally and has passed the pointer to
  \<^verbatim>\<open>deallocate\<close> on the memory the destructor left: the chunk is the head of the free
  list and links to the previous head.
\<close>

lemma destroy_returns_chunk:
  "destroy destruct 0 s = (Inr (), s) \<and>
   (ptr \<noteq> 0 \<and> (destruct ptr (memory s) = Returns m \<or> destruct ptr (memory s) = ThrowsStd m) \<longrightarrow>
      destroy destruct ptr s = (Inr (), deallocate ptr (s\<lparr> memory := m \<rparr>)) \<and>
      free_chunks' (snd (destroy destruct ptr s)) = ptr \<and>
      load_ptr (memory (snd (destroy destruct ptr s))) ptr = free_chunks' s \<and>
      (\<forall>x. 8 \<le> x - ptr \<longrightarrow> memory (snd (destroy destruct ptr s)) x = m x))"
  by (auto simp: destroy_def deallocate_def load_store_same store_ptr_frame)

text \<open>
  C5 (\<^verbatim>\<open>destroy\<close> returns the chunk to the free list even if the destructor raises, and
  the failure never reaches the caller): the handler of \<^verbatim>\<open>destroy\<close> is
  \<^verbatim>\<open>catch(std::exception& e) {}\<close>. In \<^verbatim>\<open>TypedMemoryPool\<close> over \<^verbatim>\<open>MemoryPool(12, 4, 10)\<close>,
  \<^verbatim>\<open>make\<close> returns the chunk 4116. When its destructor, declared \<^verbatim>\<open>noexcept(false)\<close>,
  throws a value of another type, such as \<^verbatim>\<open>throw 42\<close>, the exception leaves
  \<^verbatim>\<open>destroy\<close> and the free list stays empty. When its destructor is \<^verbatim>\<open>noexcept\<close>, as
  it is unless declared otherwise, and an exception tries to leave it, the program is
  terminated inside \<^verbatim>\<open>destroy\<close>; the chunk 4116 is not put on the free list either.
\<close>

theorem C5_uncaught_exception_keeps_chunk:
  "and_then (TypedMemoryPool_ctor (\<lambda>_. 0) 12 4 10)
     (\<lambda>s. case make sys_pages returns s of
            (r, s1) \<Rightarrow> (case destroy throws_other 4116 s1 of
               (r', s2) \<Rightarrow> (case destroy terminates 4116 s1 of
                  (r'', s3) \<Rightarrow> Inr (r, r', free_chunks' s2, r'', free_chunks' s3))))
   = Inr (Inr 4116, Inl Uncaught, 0, Inl Terminated, 0)"
  by (simp add: and_then_def TypedMemoryPool_ctor_def MemoryPool_ctor_def getAssignment_def pointer_size_def
      make_def destroy_def allocate_def allocateBlock_def sys_pages_def throws_other_def returns_def
      terminates_def Let_def)

section \<open>The free list in the states that the pool can reach\<close>

text \<open>
  Where the chunk size is at least the size of a pointer, the chunks of the blocks are
  pairwise disjoint in their first eight bytes, also across blocks and although a chunk may
  end past its block. The invariant \<open>pool_inv\<close> then holds in every reachable state.
\<close>

lemma padding_bounds: "0 < cs \<Longrightarrow> 1 \<le> padding_of cs b \<and> padding_of cs b \<le> cs"
  unfolding padding_of_def
  using mod_less_divisor [of cs "b + 8"] by linarith

lemma unat_first_chunk:
  fixes cs b :: addr
  assumes "cs \<noteq> 0" and "unat b + 8 + unat cs < 2 ^ 64"
  shows "unat (first_chunk_of cs b) = unat b + 8 + padding_of (unat cs) (unat b)"
proof -
  have b8: "unat (b + 8) = unat b + 8"
    using assms(2) by (simp add: unat_word_ariths)
  have m: "unat ((b + 8) mod cs) = (unat b + 8) mod unat cs"
    by (simp add: unat_mod b8)
  have pos: "0 < unat cs"
    using assms(1) by (simp add: unat_gt_0)
  have lt: "(unat b + 8) mod unat cs < unat cs"
    using pos by simp
  have s: "unat (cs - (b + 8) mod cs) = unat cs - (unat b + 8) mod unat cs"
    using lt m by (simp add: unat_sub_if')
  have "unat (b + 8 + (cs - (b + 8) mod cs)) = unat (b + 8) + unat (cs - (b + 8) mod cs)"
    using assms(2) b8 s by (subst unat_add_lem [THEN iffD1]) simp_all
  then show ?thesis
    by (simp add: first_chunk_of_def pointer_size_def b8 s padding_of_def)
qed

lemma unat_chunk_at:
  fixes cs b :: addr
  assumes "cs \<noteq> 0" and "i \<le> n" and "unat b + 8 + (n + 1) * unat cs < 2 ^ 64"
  shows "unat (chunk_at cs b i) = unat b + 8 + padding_of (unat cs) (unat b) + i * unat cs"
proof -
  have pos: "0 < unat cs"
    using assms(1) by (simp add: unat_gt_0)
  have "unat cs \<le> (n + 1) * unat cs"
    by simp
  then have f: "unat (first_chunk_of cs b) = unat b + 8 + padding_of (unat cs) (unat b)"
    using assms by (intro unat_first_chunk) simp_all
  have "i * unat cs \<le> n * unat cs"
    using assms(2) by simp
  moreover have "padding_of (unat cs) (unat b) \<le> unat cs"
    using padding_bounds [OF pos] by simp
  moreover have "(n + 1) * unat cs = n * unat cs + unat cs"
    by simp
  ultimately have "unat (first_chunk_of cs b) + i * unat cs < 2 ^ 64"
    using f assms(3) by linarith
  then show ?thesis
    unfolding chunk_at_def by (simp add: unat_linear f)
qed

lemma apart_nat:
  fixes p q :: addr
  shows "8 \<le> unat p \<Longrightarrow> unat p + 8 \<le> unat q \<Longrightarrow> apart p q"
  unfolding apart_def by unat_arith

lemma sane_heap_bound:
  "sane_heap slack blocks \<Longrightarrow> blk \<in> set blocks \<Longrightarrow>
   unat (fst blk) + unat (snd blk) + slack < 2 ^ 64"
  by (induction blocks) auto

lemma sane_heap_nonnull:
  "sane_heap slack blocks \<Longrightarrow> blk \<in> set blocks \<Longrightarrow> fst blk \<noteq> 0"
  by (induction blocks) auto

lemma sane_heap_disjoint:
  "sane_heap slack blocks \<Longrightarrow> blk \<in> set blocks \<Longrightarrow> blk' \<in> set blocks \<Longrightarrow> blk \<noteq> blk' \<Longrightarrow>
   unat (fst blk) + unat (snd blk) \<le> unat (fst blk') \<or>
   unat (fst blk') + unat (snd blk') \<le> unat (fst blk)"
  by (induction blocks) (auto simp: list_all_iff)

lemma cross_block_nat:
  fixes B B' cs n i i' pad pad' :: nat
  assumes "B + (8 + (cs + 1) * n) \<le> B'" and "i < n" and "pad \<le> cs" and "1 \<le> pad'"
  shows "B + 8 + pad + i * cs + 8 \<le> B' + 8 + pad' + i' * cs"
proof -
  have "Suc i * cs \<le> n * cs"
    using assms(2) by (intro mult_le_mono1) simp
  then have "i * cs + cs \<le> n * cs"
    by simp
  moreover have "(cs + 1) * n = n * cs + n"
    by (simp add: algebra_simps)
  moreover have "1 \<le> n"
    using assms(2) by simp
  ultimately show ?thesis
    using assms(1,3,4) by linarith
qed

lemma same_block_nat:
  fixes A cs i i' :: nat
  assumes "i < i'" and "8 \<le> cs"
  shows "A + i * cs + 8 \<le> A + i' * cs"
proof -
  have "Suc i * cs \<le> i' * cs"
    using assms(1) by (intro mult_le_mono1) simp
  then show ?thesis
    using assms(2) by simp
qed

text \<open>
The link words of two different chunks share no byte.
\<close>

lemma chunks_apart:
  fixes cs :: size_t
  assumes sane: "sane_heap (unat cs) blocks"
    and sz: "\<And>blk. blk \<in> set blocks \<Longrightarrow> unat (snd blk) = 8 + (unat cs + 1) * n"
    and cs: "8 \<le> unat cs"
    and b: "blk \<in> set blocks" "blk' \<in> set blocks" and i: "i < n" "i' < n"
    and ne: "(fst blk, i) \<noteq> (fst blk', i')"
  shows "apart (chunk_at cs (fst blk) i) (chunk_at cs (fst blk') i')"
proof -
  have cs0: "cs \<noteq> 0" using cs by auto
  have pos: "0 < unat cs" using cs by simp
  have fit: "unat (fst k) + 8 + (n + 1) * unat cs < 2 ^ 64" if "k \<in> set blocks" for k
  proof -
    have "unat (fst k) + (8 + (unat cs + 1) * n) + unat cs < 2 ^ 64"
      using sane_heap_bound [OF sane that] sz [OF that] by simp
    moreover have "(unat cs + 1) * n = n * unat cs + n" "(n + 1) * unat cs = n * unat cs + unat cs"
      by (simp_all add: algebra_simps)
    ultimately show ?thesis by linarith
  qed
  have at: "unat (chunk_at cs (fst k) j) =
      unat (fst k) + 8 + padding_of (unat cs) (unat (fst k)) + j * unat cs"
    if "k \<in> set blocks" "j < n" for k j
    using that fit [OF that(1)] by (intro unat_chunk_at [OF cs0, of j n]) simp_all
  note pb = padding_bounds [OF pos]
  have low: "8 \<le> unat (chunk_at cs (fst k) j)" if "k \<in> set blocks" "j < n" for k j
    using at [OF that] by simp
  show ?thesis
  proof (cases "fst blk = fst blk'")
    case True
    with ne consider "i < i'" | "i' < i" by fastforce
    then show ?thesis
    proof cases
      case 1
      have "unat (chunk_at cs (fst blk) i) + 8 \<le> unat (chunk_at cs (fst blk') i')"
        using same_block_nat [OF 1 cs] at [OF b(1) i(1)] at [OF b(2) i(2)] True by simp
      then show ?thesis
        using low [OF b(1) i(1)] by (intro apart_nat)
    next
      case 2
      have "unat (chunk_at cs (fst blk') i') + 8 \<le> unat (chunk_at cs (fst blk) i)"
        using same_block_nat [OF 2 cs] at [OF b(1) i(1)] at [OF b(2) i(2)] True by simp
      then have "apart (chunk_at cs (fst blk') i') (chunk_at cs (fst blk) i)"
        using low [OF b(2) i(2)] by (intro apart_nat)
      then show ?thesis
        using apart_sym by blast
    qed
  next
    case False
    then have "blk \<noteq> blk'" by auto
    from sane_heap_disjoint [OF sane b this]
    consider "unat (fst blk) + unat (snd blk) \<le> unat (fst blk')"
      | "unat (fst blk') + unat (snd blk') \<le> unat (fst blk)" by blast
    then show ?thesis
    proof cases
      case 1
      then have "unat (fst blk) + (8 + (unat cs + 1) * n) \<le> unat (fst blk')"
        using sz [OF b(1)] by simp
      from cross_block_nat [OF this i(1), of "padding_of (unat cs) (unat (fst blk))"
          "padding_of (unat cs) (unat (fst blk'))" i']
      have "unat (chunk_at cs (fst blk) i) + 8 \<le> unat (chunk_at cs (fst blk') i')"
        using pb at [OF b(1) i(1)] at [OF b(2) i(2)] by simp
      then show ?thesis
        using low [OF b(1) i(1)] by (intro apart_nat)
    next
      case 2
      then have "unat (fst blk') + (8 + (unat cs + 1) * n) \<le> unat (fst blk)"
        using sz [OF b(2)] by simp
      from cross_block_nat [OF this i(2), of "padding_of (unat cs) (unat (fst blk'))"
          "padding_of (unat cs) (unat (fst blk))" i]
      have "unat (chunk_at cs (fst blk') i') + 8 \<le> unat (chunk_at cs (fst blk) i)"
        using pb at [OF b(1) i(1)] at [OF b(2) i(2)] by simp
      then have "apart (chunk_at cs (fst blk') i') (chunk_at cs (fst blk) i)"
        using low [OF b(2) i(2)] by (intro apart_nat)
      then show ?thesis
        using apart_sym by blast
    qed
  qed
qed

lemma chunk_nonzero:
  fixes cs :: size_t
  assumes "sane_heap (unat cs) blocks"
    and "\<And>blk. blk \<in> set blocks \<Longrightarrow> unat (snd blk) = 8 + (unat cs + 1) * n"
    and "8 \<le> unat cs" and "blk \<in> set blocks" and "i < n"
  shows "chunk_at cs (fst blk) i \<noteq> 0"
proof -
  have cs0: "cs \<noteq> 0" using assms(3) by auto
  have "unat (fst blk) + (8 + (unat cs + 1) * n) + unat cs < 2 ^ 64"
    using sane_heap_bound [OF assms(1,4)] assms(2) [OF assms(4)] by simp
  moreover have "(unat cs + 1) * n = n * unat cs + n" "(n + 1) * unat cs = n * unat cs + unat cs"
    by (simp_all add: algebra_simps)
  ultimately have "unat (fst blk) + 8 + (n + 1) * unat cs < 2 ^ 64"
    by linarith
  then have "unat (chunk_at cs (fst blk) i) =
      unat (fst blk) + 8 + padding_of (unat cs) (unat (fst blk)) + i * unat cs"
    using assms(5) by (intro unat_chunk_at [OF cs0, of i n]) simp_all
  then have "unat (chunk_at cs (fst blk) i) \<noteq> 0"
    by simp
  then show ?thesis
    by (simp add: unat_eq_zero)
qed

lemma all_chunksE:
  assumes "x \<in> all_chunks s"
  obtains blk i where "blk \<in> set (allocated s)" "i < unat (chunks_per_block' s)"
    "x = chunk_at (chunk_size' s) (fst blk) i"
  using assms unfolding all_chunks_def by blast

lemma all_chunksI:
  "blk \<in> set (allocated s) \<Longrightarrow> i < unat (chunks_per_block' s) \<Longrightarrow>
   chunk_at (chunk_size' s) (fst blk) i \<in> all_chunks s"
  unfolding all_chunks_def by blast

lemma issued_full:
  "issued cs n n bs = (\<Union>b \<in> set bs. chunk_at cs b ` {..<n})"
  by (cases bs) (auto simp: issued_def)

lemma issued_subset:
  "j \<le> n \<Longrightarrow> issued cs n j bs \<subseteq> (\<Union>b \<in> set bs. chunk_at cs b ` {..<n})"
  by (cases bs) (auto simp: issued_def)

lemma issued_Suc:
  "issued cs n (Suc j) (b # rest) = insert (chunk_at cs b j) (issued cs n j (b # rest))"
  by (auto simp: issued_def lessThan_Suc)

lemma issued_new_block:
  "issued cs n (Suc 0) (b # bs) = insert (chunk_at cs b 0) (issued cs n n bs)"
proof -
  have "issued cs n (Suc 0) (b # bs) =
      chunk_at cs b ` {..<Suc 0} \<union> (\<Union>b' \<in> set bs. chunk_at cs b' ` {..<n})"
    by (simp add: issued_def)
  also have "\<dots> = insert (chunk_at cs b 0) (issued cs n n bs)"
    by (simp add: issued_full lessThan_Suc)
  finally show ?thesis .
qed

lemma chain_null: "chain m 0 fl 0 \<Longrightarrow> fl = []"
  by (cases fl) auto

lemma chunk_at_Suc: "chunk_at cs b j + cs = chunk_at cs b (Suc j)"
  by (simp add: chunk_at_def algebra_simps)

lemma chunk_at_0: "chunk_at cs b 0 = first_chunk_of cs b"
  by (simp add: chunk_at_def)

lemma inv_sizes:
  assumes "params_ok s" and "\<forall>blk \<in> set (allocated s). snd blk = block_size' s"
    and "blk \<in> set (allocated s)"
  shows "unat (snd blk) = 8 + (unat (chunk_size' s) + 1) * unat (chunks_per_block' s)"
  using assms by (auto simp: params_ok_def)

lemma inv_chunks_apart:
  assumes "params_ok s" and "sane_heap (unat (chunk_size' s)) (allocated s)"
    and "\<forall>blk \<in> set (allocated s). snd blk = block_size' s"
    and "blk \<in> set (allocated s)" "blk' \<in> set (allocated s)"
    and "i < unat (chunks_per_block' s)" "i' < unat (chunks_per_block' s)"
    and "(fst blk, i) \<noteq> (fst blk', i')"
  shows "apart (chunk_at (chunk_size' s) (fst blk) i) (chunk_at (chunk_size' s) (fst blk') i')"
proof (rule chunks_apart [OF assms(2) _ _ assms(4,5,6,7,8)])
  show "8 \<le> unat (chunk_size' s)"
    using assms(1) by (simp add: params_ok_def)
  show "\<And>blk. blk \<in> set (allocated s) \<Longrightarrow>
      unat (snd blk) = 8 + (unat (chunk_size' s) + 1) * unat (chunks_per_block' s)"
    using inv_sizes [OF assms(1,3)] by blast
qed

lemma all_chunks_apart:
  assumes "params_ok s" and "sane_heap (unat (chunk_size' s)) (allocated s)"
    and "\<forall>blk \<in> set (allocated s). snd blk = block_size' s"
    and "x \<in> all_chunks s" and "y \<in> all_chunks s"
    and "x \<noteq> y"
  shows "apart x y"
proof -
  from assms(4) obtain blk i where x: "blk \<in> set (allocated s)" "i < unat (chunks_per_block' s)"
      "x = chunk_at (chunk_size' s) (fst blk) i"
    by (rule all_chunksE)
  from assms(5) obtain blk' i' where y: "blk' \<in> set (allocated s)" "i' < unat (chunks_per_block' s)"
      "y = chunk_at (chunk_size' s) (fst blk') i'"
    by (rule all_chunksE)
  from assms(6) x(3) y(3) have "(fst blk, i) \<noteq> (fst blk', i')"
    by auto
  from inv_chunks_apart [OF assms(1,2,3) x(1) y(1) x(2) y(2) this] show ?thesis
    by (simp add: x(3) y(3))
qed

lemma all_chunks_nonzero:
  assumes "params_ok s" and "sane_heap (unat (chunk_size' s)) (allocated s)"
    and "\<forall>blk \<in> set (allocated s). snd blk = block_size' s"
    and "x \<in> all_chunks s"
  shows "x \<noteq> 0"
proof -
  from assms(4) obtain blk i where x: "blk \<in> set (allocated s)" "i < unat (chunks_per_block' s)"
      "x = chunk_at (chunk_size' s) (fst blk) i"
    by (rule all_chunksE)
  have "8 \<le> unat (chunk_size' s)"
    using assms(1) by (simp add: params_ok_def)
  from chunk_nonzero [OF assms(2) _ this x(1,2)] inv_sizes [OF assms(1,3)] show ?thesis
    by (simp add: x(3))
qed

lemma apart_irrefl: "\<not> apart x x"
  by (simp add: apart_def)

lemma inv_unfold:
  assumes "pool_inv s L"
  obtains fl j where "params_ok s" "sane_heap (unat (chunk_size' s)) (allocated s)"
    "\<forall>blk \<in> set (allocated s). snd blk = block_size' s"
    "chain (memory s) (free_chunks' s) fl 0" "set fl \<inter> L = {}"
    "set fl \<union> L = issued (chunk_size' s) (unat (chunks_per_block' s)) j (map fst (allocated s))"
    "cursor_at s j"
  using assms unfolding pool_inv_def by blast

lemma issued_in_blocks:
  assumes "cursor_at s j"
  shows "issued (chunk_size' s) (unat (chunks_per_block' s)) j (map fst (allocated s)) \<subseteq> all_chunks s"
proof (cases "allocated s")
  case Nil
  then show ?thesis by (simp add: issued_def)
next
  case (Cons blk rest)
  with assms have "j \<le> unat (chunks_per_block' s)"
    by (simp add: cursor_at_def)
  from issued_subset [OF this] show ?thesis
    unfolding all_chunks_def by fastforce
qed

lemma cursor_at_cong:
  "allocated s' = allocated s \<Longrightarrow> current_chunk' s' = current_chunk' s \<Longrightarrow>
   last_chunk' s' = last_chunk' s \<Longrightarrow> chunk_size' s' = chunk_size' s \<Longrightarrow>
   chunks_per_block' s' = chunks_per_block' s \<Longrightarrow> cursor_at s' j = cursor_at s j"
  by (simp add: cursor_at_def split: list.splits)

text \<open>
The invariant is kept by \<^verbatim>\<open>deallocate\<close> of a chunk that a caller holds.
\<close>

lemma pool_inv_deallocate:
  assumes "pool_inv s L" and "p \<in> L"
  shows "pool_inv (deallocate p s) (L - {p})"
proof -
  from assms(1) obtain fl j where inv: "params_ok s" "sane_heap (unat (chunk_size' s)) (allocated s)"
    "\<forall>blk \<in> set (allocated s). snd blk = block_size' s"
    "chain (memory s) (free_chunks' s) fl 0" "set fl \<inter> L = {}"
    "set fl \<union> L = issued (chunk_size' s) (unat (chunks_per_block' s)) j (map fst (allocated s))"
    "cursor_at s j"
    by (rule inv_unfold)
  let ?all = "all_chunks s"
  have sub: "set fl \<union> L \<subseteq> ?all"
    using issued_in_blocks [OF inv(7)] inv(6) by simp
  have p: "p \<in> ?all" "p \<notin> set fl"
    using sub assms(2) inv(5) by blast+
  have p0: "p \<noteq> 0"
    by (rule all_chunks_nonzero [OF inv(1,2,3) p(1)])
  have "apart p x" if "x \<in> set fl" for x
  proof -
    from that sub have "x \<in> ?all" by auto
    moreover from that p(2) have "p \<noteq> x" by auto
    ultimately show ?thesis
      using all_chunks_apart [OF inv(1,2,3) p(1)] by blast
  qed
  then have ap: "list_all (apart p) fl"
    by (simp add: list_all_iff)
  let ?s' = "s\<lparr> memory := store_ptr (memory s) p (free_chunks' s), free_chunks' := p \<rparr>"
  have d: "deallocate p s = ?s'"
    using p0 by (simp add: deallocate_def)
  have c: "chain (memory ?s') (free_chunks' ?s') (p # fl) 0"
    using p0 inv(4) ap by (simp add: load_store_same chain_store_apart)
  have "params_ok ?s'"
    using inv(1) by (simp add: params_ok_def)
  moreover have "cursor_at ?s' j"
    using inv(7) by (subst cursor_at_cong [of _ s]) simp_all
  moreover have "set (p # fl) \<inter> (L - {p}) = {}"
    using inv(5) by auto
  moreover have "set (p # fl) \<union> (L - {p}) =
      issued (chunk_size' ?s') (unat (chunks_per_block' ?s')) j (map fst (allocated ?s'))"
    using inv(6) assms(2) by auto
  ultimately show ?thesis
    unfolding pool_inv_def d using inv(2,3) c
    by (intro conjI exI [of _ "p # fl"] exI [of _ j]) simp_all
qed

lemma sane_heap_fresh:
  assumes "sane_heap slack (blk # rest)" and "\<forall>k \<in> set (blk # rest). 0 < unat (snd k)"
  shows "fst blk \<notin> fst ` set rest"
proof
  assume "fst blk \<in> fst ` set rest"
  then obtain k where k: "k \<in> set rest" "fst k = fst blk"
    by auto
  from assms(1) k(1) have "unat (fst blk) + unat (snd blk) \<le> unat (fst k) \<or>
      unat (fst k) + unat (snd k) \<le> unat (fst blk)"
    by (auto simp: list_all_iff)
  with k assms(2) show False
    by auto
qed

lemma inv_fresh_head:
  assumes "params_ok s" and "sane_heap (unat (chunk_size' s)) (allocated s)"
    and "\<forall>blk \<in> set (allocated s). snd blk = block_size' s"
    and "allocated s = blk # rest"
  shows "fst blk \<notin> fst ` set rest"
proof (rule sane_heap_fresh)
  show "sane_heap (unat (chunk_size' s)) (blk # rest)"
    using assms(2,4) by simp
  show "\<forall>k \<in> set (blk # rest). 0 < unat (snd k)"
    using assms(1,3,4) by (auto simp: params_ok_def)
qed

lemma chunk_at_inj:
  assumes "params_ok s" and "sane_heap (unat (chunk_size' s)) (allocated s)"
    and "\<forall>blk \<in> set (allocated s). snd blk = block_size' s"
    and "blk \<in> set (allocated s)" "blk' \<in> set (allocated s)"
    and "i < unat (chunks_per_block' s)" "i' < unat (chunks_per_block' s)"
    and "chunk_at (chunk_size' s) (fst blk) i = chunk_at (chunk_size' s) (fst blk') i'"
  shows "fst blk = fst blk' \<and> i = i'"
proof (rule ccontr)
  assume "\<not> (fst blk = fst blk' \<and> i = i')"
  then have "(fst blk, i) \<noteq> (fst blk', i')"
    by simp
  from inv_chunks_apart [OF assms(1-7) this] assms(8) show False
    by (simp add: apart_irrefl)
qed

lemma block_fit:
  assumes "params_ok s" and "sane_heap (unat (chunk_size' s)) (allocated s)"
    and "\<forall>blk \<in> set (allocated s). snd blk = block_size' s"
    and "blk \<in> set (allocated s)"
  shows "unat (first_chunk_of (chunk_size' s) (fst blk)) +
           unat (chunks_per_block' s) * unat (chunk_size' s) < 2 ^ 64"
proof -
  let ?cs = "unat (chunk_size' s)" and ?n = "unat (chunks_per_block' s)"
  have cs: "8 \<le> ?cs" using assms(1) by (simp add: params_ok_def)
  then have cs0: "chunk_size' s \<noteq> 0" by auto
  have "unat (fst blk) + (8 + (?cs + 1) * ?n) + ?cs < 2 ^ 64"
    using sane_heap_bound [OF assms(2,4)] inv_sizes [OF assms(1,3,4)] by simp
  moreover have "(?cs + 1) * ?n = ?n * ?cs + ?n"
    by (simp add: algebra_simps)
  ultimately have b: "unat (fst blk) + 8 + ?cs + ?n * ?cs < 2 ^ 64"
    by linarith
  then have "unat (fst blk) + 8 + ?cs < 2 ^ 64"
    by linarith
  from unat_first_chunk [OF cs0 this] padding_bounds [of ?cs "unat (fst blk)"] cs b
  show ?thesis
    by simp
qed

lemma cursor_less:
  assumes "params_ok s" and "sane_heap (unat (chunk_size' s)) (allocated s)"
    and "\<forall>blk \<in> set (allocated s). snd blk = block_size' s"
    and "allocated s = blk # rest" and "cursor_at s j" and "j < unat (chunks_per_block' s)"
  shows "current_chunk' s < last_chunk' s"
proof -
  have cs0: "chunk_size' s \<noteq> 0"
    using assms(1) by (auto simp: params_ok_def)
  have "blk \<in> set (allocated s)"
    using assms(4) by simp
  from bump_less [OF assms(6) cs0 block_fit [OF assms(1,2,3) this]] assms(4,5)
  show ?thesis
    by (simp add: cursor_at_def chunk_at_def)
qed

lemma allocate_new_block_ex:
  assumes "allocate sys_new s = Inr (p, s')" and "free_chunks' s = 0"
    and "last_chunk' s \<le> current_chunk' s"
  obtains b where "sys_new (length (allocated s)) = Some b" "chunk_size' s \<noteq> 0"
  using assms
  by (auto simp: allocate_def allocateBlock_def split: option.splits if_splits sum.splits)

text \<open>
The invariant is kept by \<^verbatim>\<open>allocate\<close>, and the chunk it returns is one no caller holds: the
  pop, the bump and the new block in turn.
\<close>

lemma pool_inv_pop:
  assumes "pool_inv s L" and "allocate sys_new s = Inr (p, s')" and "free_chunks' s \<noteq> 0"
  shows "pool_inv s' (insert p L) \<and> p \<notin> L \<and> allocated s' = allocated s"
proof -
  from assms(1) obtain fl j where inv: "params_ok s" "sane_heap (unat (chunk_size' s)) (allocated s)"
    "\<forall>blk \<in> set (allocated s). snd blk = block_size' s"
    "chain (memory s) (free_chunks' s) fl 0" "set fl \<inter> L = {}"
    "set fl \<union> L = issued (chunk_size' s) (unat (chunks_per_block' s)) j (map fst (allocated s))"
    "cursor_at s j"
    by (rule inv_unfold)
  from assms(2,3) have p: "p = free_chunks' s"
    and s': "s' = s\<lparr> free_chunks' := load_ptr (memory s) (free_chunks' s) \<rparr>"
    by (auto simp: allocate_def)
  from inv(4) assms(3) obtain fl' where fl: "fl = p # fl'"
    and c: "chain (memory s) (load_ptr (memory s) p) fl' 0"
    by (cases fl) (auto simp: p)
  have "distinct fl"
    by (rule chain_distinct [OF inv(4)])
  then have nin: "p \<notin> set fl'"
    by (simp add: fl)
  have pL: "p \<notin> L"
    using inv(5) fl by auto
  have "params_ok s'"
    using inv(1) by (simp add: params_ok_def s')
  moreover have "cursor_at s' j"
    using inv(7) by (subst cursor_at_cong [of _ s]) (simp_all add: s')
  moreover have "chain (memory s') (free_chunks' s') fl' 0"
    using c by (simp add: s' p)
  moreover have "set fl' \<inter> insert p L = {}"
    using inv(5) nin fl by auto
  moreover have "set fl' \<union> insert p L =
      issued (chunk_size' s') (unat (chunks_per_block' s')) j (map fst (allocated s'))"
    using inv(6) fl by (auto simp: s')
  ultimately have "pool_inv s' (insert p L)"
    unfolding pool_inv_def using inv(2,3)
    by (intro conjI exI [of _ fl'] exI [of _ j]) (simp_all add: s')
  then show ?thesis
    using pL by (simp add: s')
qed

lemma pool_inv_bump:
  assumes "pool_inv s L" and "allocate sys_new s = Inr (p, s')" and "free_chunks' s = 0"
    and "\<not> last_chunk' s \<le> current_chunk' s"
  shows "pool_inv s' (insert p L) \<and> p \<notin> L \<and> allocated s' = allocated s"
proof -
  from assms(1) obtain fl j where inv: "params_ok s" "sane_heap (unat (chunk_size' s)) (allocated s)"
    "\<forall>blk \<in> set (allocated s). snd blk = block_size' s"
    "chain (memory s) (free_chunks' s) fl 0" "set fl \<inter> L = {}"
    "set fl \<union> L = issued (chunk_size' s) (unat (chunks_per_block' s)) j (map fst (allocated s))"
    "cursor_at s j"
    by (rule inv_unfold)
  let ?cs = "chunk_size' s" and ?n = "unat (chunks_per_block' s)"
  from assms(2,3,4) have p: "p = current_chunk' s"
    and s': "s' = s\<lparr> current_chunk' := current_chunk' s + chunk_size' s \<rparr>"
    by (auto simp: allocate_def)
  have fl: "fl = []"
    using inv(4) assms(3) by (simp add: chain_null)
  from assms(4) inv(7) obtain blk rest where a: "allocated s = blk # rest"
    by (cases "allocated s") (auto simp: cursor_at_def)
  with inv(7) have cur: "j \<le> ?n" "current_chunk' s = chunk_at ?cs (fst blk) j"
    "last_chunk' s = chunk_at ?cs (fst blk) ?n"
    by (simp_all add: cursor_at_def)
  have j: "j < ?n"
    using cur assms(4) by (cases "j = ?n") auto
  have L: "L = issued ?cs ?n j (fst blk # map fst rest)"
    using inv(6) fl a by simp
  have blk: "blk \<in> set (allocated s)"
    using a by simp
  have pL: "p \<notin> L"
  proof
    assume "p \<in> L"
    then consider i where "i < j" "p = chunk_at ?cs (fst blk) i"
      | k i where "k \<in> set rest" "i < ?n" "p = chunk_at ?cs (fst k) i"
      unfolding L issued_def by auto
    then show False
    proof cases
      case 1
      then have "i < ?n" using j by simp
      from chunk_at_inj [OF inv(1,2,3) blk blk j this] 1 cur(2) p show False
        by simp
    next
      case 2
      then have "k \<in> set (allocated s)" using a by simp
      from chunk_at_inj [OF inv(1,2,3) blk this j 2(2)] 2 cur(2) p
      have "fst blk \<in> fst ` set rest"
        by auto
      with inv_fresh_head [OF inv(1,2,3) a] show False
        by simp
    qed
  qed
  have "params_ok s'"
    using inv(1) by (simp add: params_ok_def s')
  moreover have "cursor_at s' (Suc j)"
    using cur j a by (simp add: cursor_at_def s' chunk_at_Suc)
  moreover have "chain (memory s') (free_chunks' s') [] 0"
    using assms(3) by (simp add: s')
  moreover have "set [] \<union> insert p L =
      issued (chunk_size' s') (unat (chunks_per_block' s')) (Suc j) (map fst (allocated s'))"
    using L by (simp add: s' a issued_Suc p cur(2))
  ultimately have "pool_inv s' (insert p L)"
    unfolding pool_inv_def using inv(2,3)
    by (intro conjI exI [of _ "[]"] exI [of _ "Suc j"]) (simp_all add: s')
  then show ?thesis
    using pL by (simp add: s')
qed

lemma pool_inv_new_block:
  assumes "pool_inv s L" and "allocate sys_new s = Inr (p, s')" and "free_chunks' s = 0"
    and "last_chunk' s \<le> current_chunk' s"
    and sane': "sane_heap (unat (chunk_size' s')) (allocated s')"
  shows "pool_inv s' (insert p L) \<and> p \<notin> L"
proof -
  from assms(1) obtain fl j where inv: "params_ok s" "sane_heap (unat (chunk_size' s)) (allocated s)"
    "\<forall>blk \<in> set (allocated s). snd blk = block_size' s"
    "chain (memory s) (free_chunks' s) fl 0" "set fl \<inter> L = {}"
    "set fl \<union> L = issued (chunk_size' s) (unat (chunks_per_block' s)) j (map fst (allocated s))"
    "cursor_at s j"
    by (rule inv_unfold)
  let ?cs = "chunk_size' s" and ?n = "unat (chunks_per_block' s)"
  from assms(2,3,4) obtain b where b: "sys_new (length (allocated s)) = Some b" "?cs \<noteq> 0"
    by (rule allocate_new_block_ex)
  let ?t = "s\<lparr> memory := store_ptr (memory s) b (current_block' s),
            allocated := (b, block_size' s) # allocated s,
            current_block' := b,
            current_chunk' := first_chunk_of ?cs b + ?cs,
            last_chunk' := first_chunk_of ?cs b + chunks_per_block' s * ?cs \<rparr>"
  have e: "allocate sys_new s = Inr (first_chunk_of ?cs b, ?t)"
    using allocate_new_block [of s sys_new b] assms(3,4) b by simp
  have "Inr (first_chunk_of ?cs b, ?t) = (Inr (p, s') :: error + addr \<times> machine)"
    using e assms(2) by (simp only:)
  then have p: "p = chunk_at ?cs b 0" and s': "s' = ?t"
    unfolding chunk_at_0 by blast+
  have fl: "fl = []"
    using inv(4) assms(3) by (simp add: chain_null)
  have L: "L = issued ?cs ?n ?n (map fst (allocated s))"
  proof (cases "allocated s")
    case Nil
    then show ?thesis
      using inv(6) fl by (simp add: issued_def)
  next
    case (Cons blk rest)
    have "j = ?n"
    proof (rule ccontr)
      assume "j \<noteq> ?n"
      moreover have "j \<le> ?n"
        using inv(7) Cons by (simp add: cursor_at_def)
      ultimately have "j < ?n" by simp
      from cursor_less [OF inv(1,2,3) Cons inv(7) this] assms(4) show False
        by simp
    qed
    then show ?thesis
      using inv(6) fl by simp
  qed
  have par: "params_ok s'"
    using inv(1) by (simp add: params_ok_def s')
  have sizes: "\<forall>blk \<in> set (allocated s'). snd blk = block_size' s'"
    using inv(3) by (simp add: s')
  have n1: "0 < ?n"
    using inv(1) by (simp add: params_ok_def)
  have pL: "p \<notin> L"
  proof
    assume "p \<in> L"
    then obtain k i where k: "k \<in> set (allocated s)" "i < ?n" "p = chunk_at ?cs (fst k) i"
      unfolding L issued_full by auto
    have in': "(b, block_size' s) \<in> set (allocated s')" "k \<in> set (allocated s')"
      using k(1) by (simp_all add: s')
    have "chunk_at (chunk_size' s') (fst (b, block_size' s)) 0 = chunk_at (chunk_size' s') (fst k) i"
      using p k(3) by (simp add: s')
    from chunk_at_inj [OF par sane' sizes in' _ _ this] n1 k(2)
    have "b = fst k"
      by (simp add: s')
    then have "fst (b, block_size' s) \<in> fst ` set (allocated s)"
      using k(1) by auto
    moreover have "allocated s' = (b, block_size' s) # allocated s"
      by (simp add: s')
    ultimately show False
      using inv_fresh_head [OF par sane' sizes] by blast
  qed
  have "cursor_at s' (Suc 0)"
    using n1 by (simp add: cursor_at_def s' chunk_at_def)
  moreover have "chain (memory s') (free_chunks' s') [] 0"
    using assms(3) by (simp add: s')
  moreover have "set [] \<union> insert p L =
      issued (chunk_size' s') (unat (chunks_per_block' s')) (Suc 0) (map fst (allocated s'))"
    using L by (simp add: s' issued_new_block p)
  ultimately have "pool_inv s' (insert p L)"
    unfolding pool_inv_def using par sane' sizes
    by (intro conjI exI [of _ "[]"] exI [of _ "Suc 0"]) simp_all
  then show ?thesis
    using pL by simp
qed

lemma pool_inv_allocate:
  assumes "pool_inv s L" and "allocate sys_new s = Inr (p, s')"
    and "sane_heap (unat (chunk_size' s')) (allocated s')"
  shows "pool_inv s' (insert p L) \<and> p \<notin> L"
proof (cases "free_chunks' s \<noteq> 0")
  case True
  from pool_inv_pop [OF assms(1,2) this] show ?thesis by simp
next
  case False
  then have f: "free_chunks' s = 0" by simp
  show ?thesis
  proof (cases "last_chunk' s \<le> current_chunk' s")
    case True
    from pool_inv_new_block [OF assms(1,2) f this assms(3)] show ?thesis .
  next
    case False
    from pool_inv_bump [OF assms(1,2) f this] show ?thesis by simp
  qed
qed

text \<open>
The constructor establishes the invariant when it has computed a chunk size of at least
  eight.
\<close>

lemma pool_inv_ctor:
  assumes "MemoryPool_ctor m0 chunk_size chunk_alignment n = Inr s"
    and "8 \<le> unat (chunk_size' s)" and "n \<noteq> 0"
    and "8 + (unat (chunk_size' s) + 1) * unat n < 2 ^ 64"
  shows "pool_inv s {}"
proof -
  let ?cs = "chunk_size' s"
  from assms(1) have f: "free_chunks' s = 0" "current_chunk' s = 0" "last_chunk' s = 0"
    "allocated s = []" "chunks_per_block' s = n" "block_size' s = pointer_size + (?cs + 1) * n"
    by (auto simp: MemoryPool_ctor_def split: sum.splits)
  have n1: "1 \<le> unat n"
    using assms(3) by (simp add: unat_gt_0 Suc_le_eq)
  then have "(unat ?cs + 1) * 1 \<le> (unat ?cs + 1) * unat n"
    by (intro mult_le_mono2)
  then have "unat ?cs + 1 \<le> (unat ?cs + 1) * unat n"
    by simp
  then have "unat ?cs + 1 < 2 ^ 64"
    using assms(4) by linarith
  then have u1: "unat (?cs + 1) = unat ?cs + 1"
    by (simp add: unat_word_ariths)
  have "unat (?cs + 1) * unat n < 2 ^ 64"
    using assms(4) unfolding u1 by linarith
  then have u2: "unat ((?cs + 1) * n) = (unat ?cs + 1) * unat n"
    using u1 by (simp add: unat_mult_lem [THEN iffD1])
  have "unat (8 :: addr) + unat ((?cs + 1) * n) < 2 ^ 64"
    using assms(4) u2 by simp
  then have "unat (8 + (?cs + 1) * n) = 8 + (unat ?cs + 1) * unat n"
    using u2 by (simp add: unat_add_lem [THEN iffD1])
  then have "params_ok s"
    using assms(2) n1 by (simp add: params_ok_def f pointer_size_def)
  then show ?thesis
    unfolding pool_inv_def
    by (intro conjI exI [of _ "[]"] exI [of _ 0]) (simp_all add: f issued_def cursor_at_def)
qed

lemma reachable_inv: "reachable sys_new s L \<Longrightarrow> pool_inv s L"
proof (induction rule: reachable.induct)
  case (fresh m0 chunk_size chunk_alignment n s)
  then show ?case by (rule pool_inv_ctor)
next
  case (alloc s L p s')
  from pool_inv_allocate [OF alloc.IH alloc.hyps(2,3)] show ?case by simp
next
  case (dealloc s L p)
  then show ?case by (intro pool_inv_deallocate)
next
  case (dealloc_null s L)
  then show ?case by (simp add: deallocate_def)
qed

lemma allocate_grows:
  assumes "allocate sys_new s = Inr (p, s')"
  shows "chunk_size' s' = chunk_size' s \<and> (\<exists>ext. allocated s' = ext @ allocated s)"
  using assms
  by (auto simp: allocate_def allocateBlock_def Let_def split: if_splits option.splits sum.splits)

lemma allocate_n_grows:
  "allocate_n sys_new k s = Inr (ps, s') \<Longrightarrow>
   chunk_size' s' = chunk_size' s \<and> (\<exists>ext. allocated s' = ext @ allocated s) \<and> length ps = k"
proof (induction k arbitrary: s ps)
  case 0
  then show ?case by simp
next
  case (Suc k)
  from Suc.prems obtain p s1 ps' where a: "allocate sys_new s = Inr (p, s1)"
    and r: "allocate_n sys_new k s1 = Inr (ps', s')" and ps: "ps = p # ps'"
    by (auto split: sum.splits prod.splits)
  from allocate_grows [OF a] Suc.IH [OF r] show ?case
    by (auto simp: ps)
qed

lemma sane_heap_append: "sane_heap slack (ext @ blocks) \<Longrightarrow> sane_heap slack blocks"
  by (induction ext) simp_all

lemma pool_inv_allocate_n:
  assumes "pool_inv s L" and "allocate_n sys_new k s = Inr (ps, s')"
    and "sane_heap (unat (chunk_size' s')) (allocated s')"
  shows "pool_inv s' (L \<union> set ps) \<and> distinct ps \<and> set ps \<inter> L = {}"
  using assms
proof (induction k arbitrary: s L ps)
  case 0
  then show ?case by simp
next
  case (Suc k)
  from Suc.prems(2) obtain p s1 ps' where a: "allocate sys_new s = Inr (p, s1)"
    and r: "allocate_n sys_new k s1 = Inr (ps', s')" and ps: "ps = p # ps'"
    by (auto split: sum.splits prod.splits)
  from allocate_n_grows [OF r] Suc.prems(3) have "sane_heap (unat (chunk_size' s1)) (allocated s1)"
    by (auto dest: sane_heap_append)
  from pool_inv_allocate [OF Suc.prems(1) a this]
  have 1: "pool_inv s1 (insert p L)" "p \<notin> L"
    by simp_all
  from Suc.IH [OF 1(1) r Suc.prems(3)]
  have 2: "pool_inv s' (insert p L \<union> set ps')" "distinct ps'" "set ps' \<inter> insert p L = {}"
    by simp_all
  then show ?case
    using 1(2) by (auto simp: ps)
qed

lemma separatedI:
  "distinct xs \<Longrightarrow> (\<And>x y. x \<in> set xs \<Longrightarrow> y \<in> set xs \<Longrightarrow> x \<noteq> y \<Longrightarrow> apart x y) \<Longrightarrow>
   separated xs"
proof (induction xs)
  case Nil
  then show ?case by simp
next
  case (Cons x xs)
  have "list_all (apart x) xs"
    unfolding list_all_iff using Cons.prems by auto
  moreover have "separated xs"
    using Cons.prems by (intro Cons.IH) auto
  ultimately show ?case by simp
qed

lemma inv_live_chunks:
  assumes "pool_inv s L"
  shows "L \<subseteq> all_chunks s"
    and "\<And>x y. x \<in> all_chunks s \<Longrightarrow> y \<in> all_chunks s \<Longrightarrow> x \<noteq> y \<Longrightarrow> apart x y"
    and "0 \<notin> all_chunks s"
proof -
  from assms obtain fl j where inv: "params_ok s" "sane_heap (unat (chunk_size' s)) (allocated s)"
    "\<forall>blk \<in> set (allocated s). snd blk = block_size' s"
    "chain (memory s) (free_chunks' s) fl 0" "set fl \<inter> L = {}"
    "set fl \<union> L = issued (chunk_size' s) (unat (chunks_per_block' s)) j (map fst (allocated s))"
    "cursor_at s j"
    by (rule inv_unfold)
  show "L \<subseteq> all_chunks s"
    using issued_in_blocks [OF inv(7)] inv(6) by blast
  show "\<And>x y. x \<in> all_chunks s \<Longrightarrow> y \<in> all_chunks s \<Longrightarrow> x \<noteq> y \<Longrightarrow> apart x y"
    by (rule all_chunks_apart [OF inv(1,2,3)])
  show "0 \<notin> all_chunks s"
    using all_chunks_nonzero [OF inv(1,2,3)] by blast
qed

text \<open>
  The reuse property in the states that the pool can reach: \<open>k\<close> allocations return
  \<open>k\<close> different non-null chunks that no caller held; after these chunks are deallocated in
  any order \<open>qs\<close>, the next \<open>k\<close> allocations return them in the reverse of that order,
  obtain no block and put the head of the free list back where it was.
\<close>

theorem reuse_in_reachable_states:
  assumes "reachable sys_new s L" and "allocate_n sys_new k s = Inr (ps, s1)"
    and "sane_heap (unat (chunk_size' s1)) (allocated s1)"
    and "distinct qs" and "set qs = set ps"
  shows "allocate_n sys_new k (deallocate_all qs s1) =
           Inr (rev qs, (deallocate_all qs s1)\<lparr> free_chunks' := free_chunks' s1 \<rparr>) \<and>
         allocated (deallocate_all qs s1) = allocated s1 \<and>
         distinct ps \<and> set ps \<inter> L = {} \<and> 0 \<notin> set ps"
proof -
  from pool_inv_allocate_n [OF reachable_inv [OF assms(1)] assms(2,3)]
  have inv: "pool_inv s1 (L \<union> set ps)" and d: "distinct ps" "set ps \<inter> L = {}"
    by simp_all
  note ch = inv_live_chunks [OF inv]
  have sub: "set qs \<subseteq> all_chunks s1"
    using ch(1) assms(5) by simp
  have sep: "separated qs"
    using assms(4) sub ch(2) by (intro separatedI) auto
  have z: "0 \<notin> set qs"
    using sub ch(3) by auto
  have "length qs = length ps"
    using assms(4,5) d(1) by (metis distinct_card)
  then have len: "length qs = k"
    using allocate_n_grows [OF assms(2)] by simp
  from reuse_lifo [OF sep z, of sys_new s1] show ?thesis
    using len d z assms(5) by (simp add: deallocate_all_frame)
qed

text \<open>
  Where moreover a block has at least eight chunks, the first eight bytes of every chunk
  lie inside its own block, so no write of \<^verbatim>\<open>deallocate\<close> reaches the link of a block.
\<close>

lemma apart_nat2:
  fixes p q :: addr
  assumes "unat p + 8 \<le> unat q" and "unat q + 8 < 2 ^ 64"
  shows "apart p q"
proof -
  have "unat (q - p) = unat q - unat p"
    using assms(1) by (simp add: unat_sub_if')
  moreover have "unat (p - q) = unat p + 2 ^ 64 - unat q"
    using assms(1) by (simp add: unat_sub_if')
  ultimately show ?thesis
    using assms by (simp add: apart_def word_le_nat_alt, linarith)
qed

lemma headers_apart:
  assumes "sane_heap slack blocks" and "blk \<in> set blocks" "blk' \<in> set blocks"
    and "blk \<noteq> blk'" and "8 \<le> unat (snd blk)" "8 \<le> unat (snd blk')"
  shows "apart (fst blk) (fst blk')"
proof -
  note b = sane_heap_bound [OF assms(1,2)] sane_heap_bound [OF assms(1,3)]
  from sane_heap_disjoint [OF assms(1-4)]
  consider "unat (fst blk) + unat (snd blk) \<le> unat (fst blk')"
    | "unat (fst blk') + unat (snd blk') \<le> unat (fst blk)" by blast
  then show ?thesis
  proof cases
    case 1
    then show ?thesis
      using assms(5,6) b by (intro apart_nat2) linarith+
  next
    case 2
    then have "apart (fst blk') (fst blk)"
      using assms(5,6) b by (intro apart_nat2) linarith+
    then show ?thesis
      using apart_sym by blast
  qed
qed

lemma chunk_header_apart:
  fixes cs :: size_t
  assumes sane: "sane_heap (unat cs) blocks"
    and sz: "\<And>blk. blk \<in> set blocks \<Longrightarrow> unat (snd blk) = 8 + (unat cs + 1) * n"
    and cs: "8 \<le> unat cs" and n: "8 \<le> n"
    and b: "k \<in> set blocks" "blk \<in> set blocks" and i: "i < n"
  shows "apart (chunk_at cs (fst k) i) (fst blk)"
proof -
  let ?x = "chunk_at cs (fst k) i"
  let ?S = "8 + (unat cs + 1) * n"
  have cs0: "cs \<noteq> 0" using cs by auto
  have pos: "0 < unat cs" using cs by simp
  have e: "(unat cs + 1) * n = n * unat cs + n" "(n + 1) * unat cs = n * unat cs + unat cs"
    by (simp_all add: algebra_simps)
  have bk: "unat (fst k) + ?S + unat cs < 2 ^ 64"
    using sane_heap_bound [OF sane b(1)] sz [OF b(1)] by simp
  have bb: "unat (fst blk) + ?S + unat cs < 2 ^ 64"
    using sane_heap_bound [OF sane b(2)] sz [OF b(2)] by simp
  have "unat (fst k) + 8 + (n + 1) * unat cs < 2 ^ 64"
    using bk e by linarith
  then have at: "unat ?x = unat (fst k) + 8 + padding_of (unat cs) (unat (fst k)) + i * unat cs"
    using i by (intro unat_chunk_at [OF cs0, of i n]) simp_all
  note pb = padding_bounds [OF pos, of "unat (fst k)"]
  have "Suc i * unat cs \<le> n * unat cs"
    using i by (intro mult_le_mono1) simp
  then have up: "i * unat cs + unat cs \<le> n * unat cs"
    by simp
  have lo: "unat (fst k) + 9 \<le> unat ?x"
    using at pb by linarith
  have hi: "unat ?x + n \<le> unat (fst k) + ?S"
    using at pb up e by linarith
  show ?thesis
  proof (cases "k = blk")
    case True
    have "apart (fst k) ?x"
      using lo hi bk n cs by (intro apart_nat2) linarith+
    then show ?thesis
      unfolding True using apart_sym by blast
  next
    case False
    from sane_heap_disjoint [OF sane b False]
    consider "unat (fst k) + unat (snd k) \<le> unat (fst blk)"
      | "unat (fst blk) + unat (snd blk) \<le> unat (fst k)" by blast
    then show ?thesis
    proof cases
      case 1
      then have "unat (fst k) + ?S \<le> unat (fst blk)"
        using sz [OF b(1)] by simp
      then show ?thesis
        using hi n bb lo assms(3) sz [OF b(2)] by (intro apart_nat2) linarith+
    next
      case 2
      then have "unat (fst blk) + ?S \<le> unat (fst k)"
        using sz [OF b(2)] by simp
      then have "apart (fst blk) ?x"
        using lo hi bk n cs by (intro apart_nat2) linarith+
      then show ?thesis
        using apart_sym by blast
    qed
  qed
qed

lemma allocate_block_list:
  assumes "allocate sys_new s = Inr (p, s')"
  shows "(memory s' = memory s \<and> current_block' s' = current_block' s \<and> allocated s' = allocated s) \<or>
         (\<exists>b. allocated s' = (b, block_size' s) # allocated s \<and> current_block' s' = b \<and>
              memory s' = store_ptr (memory s) b (current_block' s))"
  using assms
  by (auto simp: allocate_def allocateBlock_def Let_def split: if_splits option.splits sum.splits)

lemma allocate_fields:
  assumes "allocate sys_new s = Inr (p, s')"
  shows "chunks_per_block' s' = chunks_per_block' s \<and> block_size' s' = block_size' s"
  using assms
  by (auto simp: allocate_def allocateBlock_def Let_def split: if_splits option.splits sum.splits)

text \<open>
  With at least eight chunks per block, the block list links the blocks obtained in every
  state that the pool can reach.
\<close>

theorem block_list_in_reachable_states:
  assumes "reachable sys_new s L" and "8 \<le> unat (chunks_per_block' s)"
  shows "chain (memory s) (current_block' s) (map fst (allocated s)) 0"
  using assms
proof (induction rule: reachable.induct)
  case (fresh m0 chunk_size chunk_alignment n s)
  then show ?case by (intro block_list_ctor)
next
  case (alloc s L p s')
  from allocate_fields [OF alloc.hyps(2)] alloc.prems
  have c: "chain (memory s) (current_block' s) (map fst (allocated s)) 0"
    by (intro alloc.IH) simp
  have inv': "pool_inv s' (insert p L)"
    using pool_inv_allocate [OF reachable_inv [OF alloc.hyps(1)] alloc.hyps(2,3)] by simp
  from allocate_block_list [OF alloc.hyps(2)] show ?case
  proof
    assume "memory s' = memory s \<and> current_block' s' = current_block' s \<and> allocated s' = allocated s"
    with c show ?thesis by simp
  next
    assume "\<exists>b. allocated s' = (b, block_size' s) # allocated s \<and> current_block' s' = b \<and>
              memory s' = store_ptr (memory s) b (current_block' s)"
    then obtain b where b: "allocated s' = (b, block_size' s) # allocated s" "current_block' s' = b"
      "memory s' = store_ptr (memory s) b (current_block' s)"
      by blast
    from inv' have par: "params_ok s'" and sizes: "\<forall>blk \<in> set (allocated s'). snd blk = block_size' s'"
      by (simp_all add: pool_inv_def)
    have big: "8 \<le> unat (snd blk)" if "blk \<in> set (allocated s')" for blk
      using inv_sizes [OF par sizes that] by simp
    have b0: "b \<noteq> 0"
      using sane_heap_nonnull [OF alloc.hyps(3), of "(b, block_size' s)"] b(1) by simp
    have "apart b (fst blk)" if "blk \<in> set (allocated s)" for blk
    proof -
      have m: "(b, block_size' s) \<in> set (allocated s')" "blk \<in> set (allocated s')"
        using that b(1) by simp_all
      have "fst (b, block_size' s) \<notin> fst ` set (allocated s)"
        using inv_fresh_head [OF par alloc.hyps(3) sizes b(1)] .
      then have "(b, block_size' s) \<noteq> blk"
        using that by force
      from headers_apart [OF alloc.hyps(3) m this big [OF m(1)] big [OF m(2)]] show ?thesis
        by simp
    qed
    then have "list_all (apart b) (map fst (allocated s))"
      by (simp add: list_all_iff)
    then show ?thesis
      using c b b0 by (simp add: load_store_same chain_store_apart)
  qed
next
  case (dealloc s L p)
  have n: "8 \<le> unat (chunks_per_block' s)"
    using dealloc.prems by (simp add: deallocate_def split: if_splits)
  then have c: "chain (memory s) (current_block' s) (map fst (allocated s)) 0"
    by (rule dealloc.IH)
  have inv: "pool_inv s L"
    by (rule reachable_inv [OF dealloc.hyps(1)])
  then have par: "params_ok s" and sane: "sane_heap (unat (chunk_size' s)) (allocated s)"
    and sizes: "\<forall>blk \<in> set (allocated s). snd blk = block_size' s"
    by (simp_all add: pool_inv_def)
  from inv_live_chunks(1) [OF inv] dealloc.hyps(2) have "p \<in> all_chunks s"
    by blast
  then obtain k i where k: "k \<in> set (allocated s)" "i < unat (chunks_per_block' s)"
    "p = chunk_at (chunk_size' s) (fst k) i"
    by (rule all_chunksE)
  have cs: "8 \<le> unat (chunk_size' s)"
    using par by (simp add: params_ok_def)
  have "apart p (fst blk)" if "blk \<in> set (allocated s)" for blk
    unfolding k(3)
    by (rule chunk_header_apart [OF sane inv_sizes [OF par sizes] cs n k(1) that k(2)])
  then have "list_all (apart p) (map fst (allocated s))"
    by (simp add: list_all_iff)
  from block_list_deallocate [OF c this] show ?case .
next
  case (dealloc_null s L)
  then show ?case by (simp add: deallocate_def)
qed

text \<open>
  So with at least eight chunks per block the destructor releases every block obtained,
  each once, from every such state.
\<close>

theorem destructor_in_reachable_states:
  assumes "reachable sys_new s L" and "8 \<le> unat (chunks_per_block' s)"
  shows "\<exists>s'. MemoryPool_dtor s = Some s' \<and>
           released s' = released s @ map fst (allocated s) \<and>
           distinct (map fst (allocated s)) \<and>
           current_block' s' = 0 \<and> memory s' = memory s"
  using destructor_releases_linked_blocks [OF block_list_in_reachable_states [OF assms]]
  by blast

text \<open>
The pool \<^verbatim>\<open>MemoryPool(12, 4, 10)\<close> as constructed is such a state.
\<close>

lemma scenario_reachable: "reachable sys_pages scenario_pool {}"
proof (rule reachable.fresh)
  show "MemoryPool_ctor (\<lambda>_. 0) 12 4 10 = Inr scenario_pool"
    by (simp add: scenario_ctor scenario_pool_def)
  show "8 \<le> unat (chunk_size' scenario_pool)"
    by (simp add: scenario_pool_def)
  show "(10 :: size_t) \<noteq> 0"
    by simp
  show "8 + (unat (chunk_size' scenario_pool) + 1) * unat (10 :: size_t) < 2 ^ 64"
    by (simp add: scenario_pool_def)
qed

text \<open>
  The scenario \<^verbatim>\<open>MemoryPool(12, 4, 10)\<close> of \<^verbatim>\<open>main\<close>: twenty allocations take two blocks;
  after the twenty chunks are deallocated in the order they were returned, twenty more
  allocations return the same chunks in reverse order and no third block is obtained.
\<close>

lemma scenario_first_round:
  "map_sum id (\<lambda>(ps, s). (ps, length (allocated s)))
     (and_then (MemoryPool_ctor (\<lambda>_. 0) 12 4 10) (allocate_n sys_pages 20)) =
   Inr ([4116, 4128, 4140, 4152, 4164, 4176, 4188, 4200, 4212, 4224,
         8208, 8220, 8232, 8244, 8256, 8268, 8280, 8292, 8304, 8316], 2)"
  by code_simp

lemma scenario_chunks_separated:
  "separated [4116, 4128, 4140, 4152, 4164, 4176, 4188, 4200, 4212, 4224,
         8208, 8220, 8232, 8244, 8256, 8268, 8280, 8292, 8304, 8316]"
  by (simp add: apart_def)

lemma scenario_reuse:
  "\<exists>ps s1 s2.
     and_then (MemoryPool_ctor (\<lambda>_. 0) 12 4 10) (allocate_n sys_pages 20) = Inr (ps, s1) \<and>
     length ps = 20 \<and> distinct ps \<and> length (allocated s1) = 2 \<and>
     allocate_n sys_pages 20 (deallocate_all ps s1) = Inr (rev ps, s2) \<and>
     allocated s2 = allocated s1 \<and> free_chunks' s2 = free_chunks' s1"
proof -
  let ?ps = "[4116, 4128, 4140, 4152, 4164, 4176, 4188, 4200, 4212, 4224,
         8208, 8220, 8232, 8244, 8256, 8268, 8280, 8292, 8304, 8316] :: addr list"
  from scenario_first_round obtain s1 where
    r1: "and_then (MemoryPool_ctor (\<lambda>_. 0) 12 4 10) (allocate_n sys_pages 20) = Inr (?ps, s1)"
    and b: "length (allocated s1) = 2"
    by (cases "and_then (MemoryPool_ctor (\<lambda>_. 0) 12 4 10) (allocate_n sys_pages 20)") auto
  have z: "0 \<notin> set ?ps"
    by simp
  have r2: "allocate_n sys_pages (length ?ps) (deallocate_all ?ps s1) =
      Inr (rev ?ps, (deallocate_all ?ps s1)\<lparr> free_chunks' := free_chunks' s1 \<rparr>)"
    by (rule reuse_lifo [OF scenario_chunks_separated z])
  have l: "length ?ps = 20" "distinct ?ps"
    by simp_all
  let ?s2 = "(deallocate_all ?ps s1)\<lparr> free_chunks' := free_chunks' s1 \<rparr>"
  have r2': "allocate_n sys_pages 20 (deallocate_all ?ps s1) = Inr (rev ?ps, ?s2)"
    using r2 by (simp only: l(1))
  have f: "allocated ?s2 = allocated s1" "free_chunks' ?s2 = free_chunks' s1"
    using deallocate_all_frame [of ?ps s1] by simp_all
  show ?thesis
    apply (rule exI [of _ ?ps], rule exI [of _ s1], rule exI [of _ ?s2])
    apply (intro conjI)
          apply (rule r1)
         apply (rule l(1))
        apply (rule l(2))
       apply (rule b)
      apply (rule r2')
     apply (rule f(1))
    apply (rule f(2))
    done
qed

end
